theory Spec2Isabelle
  imports Main "HOL-Library.AList"
begin

section \<open>Values, ring buffers and the metric store\<close>

text \<open>
  Python exceptions that the modelled code can raise. Every function of the model that
  can raise returns \<open>exn + 'a\<close>, with \<open>Inl\<close> for the exception.
\<close>

datatype exn = KeyError string | TypeError | Unavailable | OtherError string

text \<open>
  The samples the agent stores: strings, integers and booleans (\<open>PNone\<close> is Python's
  \<open>None\<close>). Floating-point samples are left out of the model.
\<close>

datatype pyval = PNone | PBool bool | PInt int | PStr string

text \<open>
  Python's \<open>==\<close> between a sample and a string literal: only a string sample with the
  same characters compares equal.
\<close>

fun py_eq_str :: "pyval \<Rightarrow> string \<Rightarrow> bool" where
  "py_eq_str (PStr s) t = (s = t)"
| "py_eq_str _ t = False"

datatype Severity = GREEN | ORANGE | RED

text \<open>
  Modelled from the spec: \<open>Severity.weight\<close> of \<open>agent.core.rbuffer\<close>, which is not
  part of the sources at hand. The spec gives each severity a fixed integer weight,
  green=0, orange=50, red=100.
\<close>

fun weight :: "Severity \<Rightarrow> int" where
  "weight GREEN = 0"
| "weight ORANGE = 50"
| "weight RED = 100"

text \<open>
  Modelled from the spec: the \<open>Symptom\<close> class of \<open>agent.assurance.symptoms\<close>, which is
  not part of the sources at hand. A symptom binding is \<open>{name, path, severity, rule,
  bound_node}\<close>. The name, the path and the rule are what the rule file gave, a string
  or Python's \<open>None\<close>; the bound node is kept by its fullname, \<open>None\<close> when the symptom was
  built without a node.
\<close>

datatype Symptom = Symptom
  (sym_name: "string option") (sym_path: "string option") (severity: Severity)
  (rule: "string option") (sym_node: "string option")

text \<open>
  Modelled from the spec: the attribute \<open>symptom.weight\<close> read by \<open>update_symptoms\<close>; a
  firing symptom contributes its severity's weight as malus.
\<close>

definition sym_weight :: "Symptom \<Rightarrow> int" where
  "sym_weight s = weight (severity s)"

datatype vtype = TInt | TFloat | TStr | TBool

text \<open>
  Modelled from the spec: the ring buffer of \<open>agent.core.rbuffer\<close> (not part of the
  sources at hand): a bounded sequence of samples of one metric, oldest first, with a
  constant capacity, a value type, a unit and a counter flag.
\<close>

record RingBuffer =
  max_len :: nat
  rb_type :: vtype
  rb_unit :: string
  rb_counter :: bool
  samples :: "pyval list"

definition is_empty :: "RingBuffer \<Rightarrow> bool" where
  "is_empty rb = (samples rb = [])"

text \<open>
  Modelled from the spec: \<open>_top\<close> is the most recent sample; an empty buffer has none
  and the query is answered "unavailable".
\<close>

definition top :: "RingBuffer \<Rightarrow> exn + pyval" where
  "top rb = (if samples rb = [] then Inl Unavailable else Inr (last (samples rb)))"

text \<open>
  Modelled from the spec: \<open>append\<close> evicts the oldest samples when the buffer is full.
  The coercion of the sample to the declared type is not modelled.
\<close>

definition rb_append :: "RingBuffer \<Rightarrow> pyval \<Rightarrow> RingBuffer" where
  "rb_append rb x =
     rb\<lparr>samples := drop (length (samples rb) + 1 - max_len rb) (samples rb @ [x])\<rparr>"

text \<open>
  The store \<open>_data\<close> is a Python dict from strings to ring buffers, to further dicts, to
  the list of positive symptoms or to the dict of health scores. Dicts are association
  lists in insertion order with distinct keys: \<open>map_of\<close> reads a key,
  \<open>AList.update\<close> is \<open>d[k] = v\<close> and \<open>AList.delete\<close> is \<open>del d[k]\<close>.
\<close>

datatype entry =
    Buf RingBuffer
  | Dict "(string \<times> entry) list"
  | Symptoms "Symptom list"
  | Scores "(string \<times> int) list"

type_synonym pydict = "(string \<times> entry) list"

definition keys :: "('k \<times> 'v) list \<Rightarrow> 'k list" where
  "keys d = map fst d"

text \<open>\<open>d[k]\<close> where the value must be a dict itself.\<close>

definition get_dict :: "pydict \<Rightarrow> string \<Rightarrow> exn + pydict" where
  "get_dict d k =
     (case map_of d k of
        None \<Rightarrow> Inl (KeyError k)
      | Some (Dict m) \<Rightarrow> Inr m
      | Some _ \<Rightarrow> Inl TypeError)"

text \<open>\<open>del d[k]\<close> raises \<open>KeyError\<close> on a missing key.\<close>

definition del_key :: "pydict \<Rightarrow> string \<Rightarrow> exn + pydict" where
  "del_key d k =
     (if k \<in> set (keys d) then Inr (AList.delete k d) else Inl (KeyError k))"

section \<open>The subservice dependency graph\<close>

text \<open>
  The classes of health.py: \<open>Subservice\<close> itself and its subclasses \<open>Node\<close>,
  \<open>Baremetal\<close>, \<open>VM\<close> (with its hypervisor) and \<open>KBNet\<close> (with its framework).
  \<open>isinstance(s, VM)\<close> is \<open>is_VM (klass s)\<close>.
\<close>

datatype klass =
    PlainSubservice
  | Node
  | Baremetal
  | VM (hypervisor: string)
  | KBNet (framework: string)

text \<open>
  A subservice with the fields set by \<open>Subservice.__init__\<close>. The tree holds the
  dependencies; the parent pointer of the source is passed as an argument where a
  function reads it. \<open>positive_symptoms\<close> starts as the empty list.
\<close>

datatype Subservice = Subservice
  (klass: klass)
  (stype: string)
  (name: string)
  (impacting: bool)
  (active: bool)
  (fullname: string)
  (path: string)
  (health_score: int)
  (symptoms: "Symptom list")
  (positive_symptoms: "Symptom list")
  (dependencies: "Subservice list")

text \<open>\<open>HealthEngine.__iter__\<close>: the subservices of a tree, parents first.\<close>

fun iter :: "Subservice \<Rightarrow> Subservice list" where
  "iter (Subservice k t n i a fn p hs sy ps deps) =
     Subservice k t n i a fn p hs sy ps deps # concat (map iter deps)"

subsection \<open>\<open>Subservice.update_symptoms\<close>\<close>

text \<open>
  \<open>check\<close> stands for \<open>Symptom.check\<close> (not part of the sources at hand): whether the
  symptom's rule holds on the store.

  The second loop of \<open>update_symptoms\<close>: each symptom that fires is appended to
  \<open>positive_symptoms\<close> and its weight is taken off the score, not below 0.
\<close>

fun symptoms_loop ::
  "(Symptom \<Rightarrow> pydict \<Rightarrow> bool) \<Rightarrow> pydict \<Rightarrow> Symptom list \<Rightarrow> Symptom list \<times> int
     \<Rightarrow> Symptom list \<times> int" where
  "symptoms_loop check d [] (ps, h) = (ps, h)"
| "symptoms_loop check d (s # ss) (ps, h) =
     (if check s d
      then symptoms_loop check d ss (ps @ [s], max 0 (h - sym_weight s))
      else symptoms_loop check d ss (ps, h))"

text \<open>
  \<open>update_symptoms\<close> returns the pair the source returns, and the subservice as the call
  leaves it. \<open>deps_loop\<close> is its first loop, over the dependencies: it returns the
  updated dependencies and the running \<open>positives\<close>, \<open>health_scores\<close> and
  \<open>self.health_score\<close>. \<open>health_scores\<close> is a dict from fullnames to scores.
\<close>

fun update_symptoms ::
  "(Symptom \<Rightarrow> pydict \<Rightarrow> bool) \<Rightarrow> pydict \<Rightarrow> Subservice
     \<Rightarrow> (Symptom list \<times> (string \<times> int) list) \<times> Subservice"
and deps_loop ::
  "(Symptom \<Rightarrow> pydict \<Rightarrow> bool) \<Rightarrow> pydict \<Rightarrow> Subservice list
     \<Rightarrow> Symptom list \<times> (string \<times> int) list \<times> int
     \<Rightarrow> Subservice list \<times> Symptom list \<times> (string \<times> int) list \<times> int" where
  "update_symptoms check d (Subservice k t n i a fn p hs sy ps deps) =
     (case deps_loop check d deps ([], [], 100) of
        (deps', positives, health_scores, h) \<Rightarrow>
          (case symptoms_loop check d sy ([], h) of
             (ps', h') \<Rightarrow>
               ((positives @ ps', AList.update fn h' health_scores),
                Subservice k t n i a fn p h' sy ps' deps')))"
| "deps_loop check d [] acc = ([], acc)"
| "deps_loop check d (c # cs) (positives, health_scores, h) =
     (case update_symptoms check d c of
        ((p, hs), c') \<Rightarrow>
          (case deps_loop check d cs
                  (positives @ p,
                   fold (\<lambda>(k, v). AList.update k v) hs health_scores,
                   if impacting c' then max 0 (h - (100 - health_score c')) else h) of
             (cs', acc') \<Rightarrow> (c' # cs', acc')))"

section \<open>The health engine\<close>

text \<open>
  Sequencing of statements that can raise: the first exception ends the computation.
\<close>

definition exn_bind :: "exn + 'a \<Rightarrow> ('a \<Rightarrow> exn + 'b) \<Rightarrow> exn + 'b" where
  "exn_bind m f = (case m of Inl e \<Rightarrow> Inl e | Inr x \<Rightarrow> f x)"

text \<open>A \<open>for\<close> loop whose body can raise, over the elements in the order of the list.\<close>

fun for_each :: "('a \<Rightarrow> 's \<Rightarrow> exn + 's) \<Rightarrow> 'a list \<Rightarrow> 's \<Rightarrow> exn + 's" where
  "for_each body [] s = Inr s"
| "for_each body (x # xs) s = exn_bind (body x s) (for_each body xs)"

text \<open>
  \<open>d[k1][k2]...[kn]\<close>, \<open>d[k1]...[kn] = v\<close> and \<open>del d[k1]...[kn]\<close> on nested dicts: every
  key but the last must be present and hold a dict.
\<close>

fun get_path :: "pydict \<Rightarrow> string list \<Rightarrow> exn + entry" where
  "get_path d [] = Inr (Dict d)"
| "get_path d [k] = (case map_of d k of None \<Rightarrow> Inl (KeyError k) | Some v \<Rightarrow> Inr v)"
| "get_path d (k # ks) = exn_bind (get_dict d k) (\<lambda>m. get_path m ks)"

fun set_path :: "pydict \<Rightarrow> string list \<Rightarrow> entry \<Rightarrow> exn + pydict" where
  "set_path d [] v = Inr d"
| "set_path d [k] v = Inr (AList.update k v d)"
| "set_path d (k # ks) v =
     exn_bind (get_dict d k) (\<lambda>m.
     exn_bind (set_path m ks v) (\<lambda>m'.
     Inr (AList.update k (Dict m') d)))"

fun del_path :: "pydict \<Rightarrow> string list \<Rightarrow> exn + pydict" where
  "del_path d [] = Inr d"
| "del_path d [k] = del_key d k"
| "del_path d (k # ks) =
     exn_bind (get_dict d k) (\<lambda>m.
     exn_bind (del_path m ks) (\<lambda>m'.
     Inr (AList.update k (Dict m') d)))"

text \<open>One record of \<open>metrics_lookup\<close>: \<open>{"types": [], "units": [], "names": []}\<close>.\<close>

record metrics_rec =
  rec_types :: "vtype list"
  rec_units :: "string list"
  rec_names :: "string list"

text \<open>The class \<open>Metric\<close>.\<close>

record Metric =
  metric_name :: string
  metric_node :: string
  metric_type :: vtype
  metric_unit :: string
  islist :: bool
  counter :: bool

text \<open>
  The fields of \<open>HealthEngine\<close> that exist before the dependency graph is built:
  \<open>data\<close> is \<open>self._data\<close>, \<open>system\<close> and \<open>node\<close> are \<open>self.sysinfo.system\<close> and
  \<open>self.sysinfo.node\<close>, \<open>symptoms_args\<close> is \<open>self._symptoms_args\<close> (without the engine
  itself; a field of a row of the rule file is a string or \<open>None\<close>). \<open>rb_max_len\<close> is the capacity that \<open>init_rb_dict\<close> gives to a ring buffer
  and \<open>now\<close> is what \<open>time.time()\<close> returns; both come from outside health.py.
\<close>

record EngineBase =
  data :: pydict
  sample_per_min :: nat
  metrics_lookup :: "(string \<times> metrics_rec) list"
  metrics :: "(string \<times> Metric) list"
  symptoms_args :: "(string option \<times> string option \<times> Severity \<times> string option) list"
  system :: string
  node :: string
  rb_max_len :: nat
  now :: nat

text \<open>The engine with its graph: \<open>self.root\<close> and \<open>self.dependency_graph_changed\<close>.\<close>

record HealthEngine = EngineBase +
  root :: Subservice
  dependency_graph_changed :: nat

text \<open>
  Modelled from the spec: \<open>init_rb_dict\<close> of \<open>agent.core.rbuffer\<close> (not part of the
  sources at hand): given the attribute names with their types and units, one new ring
  buffer per name, non-counter, holding no sample.
\<close>

definition init_rb_dict :: "nat \<Rightarrow> string list \<Rightarrow> vtype list \<Rightarrow> string list \<Rightarrow> pydict" where
  "init_rb_dict cap names types units =
     fold (\<lambda>(n, t, u).
             AList.update n (Buf \<lparr>max_len = cap, rb_type = t, rb_unit = u,
                                  rb_counter = False, samples = []\<rparr>))
          (zip names (zip types units)) []"

text \<open>\<open>Subservice._init_metrics_rb\<close>: \<open>KeyError\<close> when the registry has no such subservice.\<close>

definition init_metrics_rb :: "'a EngineBase_scheme \<Rightarrow> string \<Rightarrow> exn + pydict" where
  "init_metrics_rb e subservice =
     (case map_of (metrics_lookup e) subservice of
        None \<Rightarrow> Inl (KeyError subservice)
      | Some r \<Rightarrow> Inr (init_rb_dict (rb_max_len e) (rec_names r) (rec_types r) (rec_units r)))"

subsection \<open>Constructors\<close>

definition find_fullname :: "string \<Rightarrow> string \<Rightarrow> Subservice option \<Rightarrow> string" where
  "find_fullname t n parent =
     (let f0 = ''/'' @ t;
          f1 = (if n \<noteq> [] then f0 @ ''[name='' @ n @ '']'' else f0)
      in case parent of None \<Rightarrow> f1 | Some p \<Rightarrow> fullname p @ f1)"

definition find_path :: "string \<Rightarrow> Subservice option \<Rightarrow> string" where
  "find_path t parent =
     (let p0 = ''/'' @ t
      in case parent of None \<Rightarrow> p0 | Some p \<Rightarrow> path p @ p0)"

text \<open>
  \<open>HealthEngine.get_symptoms\<close>: a new symptom for each loaded rule whose path is the
  node's path or the node's path followed by \<open>/if\<close>.
\<close>

definition get_symptoms :: "'a EngineBase_scheme \<Rightarrow> string \<Rightarrow> string \<Rightarrow> Symptom list" where
  "get_symptoms e node_path node_fullname =
     map (\<lambda>(n, p, sev, r). Symptom n p sev r (Some node_fullname))
       (filter (\<lambda>(n, p, sev, r). p = Some node_path \<or> p = Some (node_path @ ''/if''))
          (symptoms_args e))"

text \<open>\<open>Subservice.__init__\<close>.\<close>

definition Subservice_init ::
  "'a EngineBase_scheme \<Rightarrow> klass \<Rightarrow> string \<Rightarrow> string \<Rightarrow> Subservice option \<Rightarrow> bool \<Rightarrow> Subservice" where
  "Subservice_init e k t n parent imp =
     (let fn = find_fullname t n parent;
          p = find_path t parent
      in Subservice k t n imp True fn p 100 (get_symptoms e p fn) [] [])"

text \<open>The assignment \<open>self.dependencies = deps\<close>.\<close>

fun set_dependencies :: "Subservice \<Rightarrow> Subservice list \<Rightarrow> Subservice" where
  "set_dependencies (Subservice k t n i a fn p hs sy ps deps) deps' =
     Subservice k t n i a fn p hs sy ps deps'"

text \<open>The assignment \<open>self.active = b\<close>.\<close>

fun set_active :: "Subservice \<Rightarrow> bool \<Rightarrow> Subservice" where
  "set_active (Subservice k t n i a fn p hs sy ps deps) b =
     Subservice k t n i b fn p hs sy ps deps"

text \<open>
  \<open>Baremetal.__init__\<close>, \<open>VM.__init__\<close> and \<open>KBNet.__init__\<close> return the new subservice and
  the store as they leave it.
\<close>

definition Baremetal_init ::
  "'a EngineBase_scheme \<Rightarrow> string \<Rightarrow> Subservice option \<Rightarrow> exn + Subservice \<times> pydict" where
  "Baremetal_init e n parent =
     (let self = Subservice_init e Baremetal ''bm'' n parent True;
          deps = map (\<lambda>dep. Subservice_init e PlainSubservice dep [] (Some self) True)
                   [''cpu'', ''sensors'', ''disks'', ''mem'', ''proc'', ''net''];
          d1 = AList.update ''/node/bm/net/if'' (Dict []) (data e)
      in exn_bind (init_metrics_rb e ''net'') (\<lambda>rb_net.
         exn_bind (init_metrics_rb e ''mem'') (\<lambda>rb_mem.
         exn_bind (init_metrics_rb e ''proc'') (\<lambda>rb_proc.
         Inr (set_dependencies self deps,
              AList.update ''/node/bm/proc'' (Dict rb_proc)
                (AList.update ''/node/bm/mem'' (Dict rb_mem)
                  (AList.update ''/node/bm/net'' (Dict rb_net) d1)))))))"

definition VM_init ::
  "'a EngineBase_scheme \<Rightarrow> string \<Rightarrow> string \<Rightarrow> Subservice option \<Rightarrow> exn + Subservice \<times> pydict" where
  "VM_init e n hyp parent =
     (let self = Subservice_init e (VM hyp) ''vm'' n parent True;
          deps = map (\<lambda>dep. Subservice_init e PlainSubservice dep [] (Some self) True)
                   [''cpu'', ''mem'', ''net'', ''proc'']
      in exn_bind (set_path (data e) [''/node/vm'', n] (Dict [])) (\<lambda>d1.
         exn_bind (init_metrics_rb e ''vm'') (\<lambda>rb_vm.
         exn_bind (set_path d1 [''/node/vm'', n, ''/node/vm''] (Dict rb_vm)) (\<lambda>d2.
         exn_bind (set_path d2 [''/node/vm'', n, ''/node/vm/net/if''] (Dict [])) (\<lambda>d3.
         exn_bind (init_metrics_rb e ''proc'') (\<lambda>rb_proc.
         exn_bind (set_path d3 [''/node/vm'', n, ''/node/vm/proc''] (Dict rb_proc)) (\<lambda>d4.
         exn_bind (init_metrics_rb e ''net'') (\<lambda>rb_net.
         exn_bind (set_path d4 [''/node/vm'', n, ''/node/vm/net''] (Dict rb_net)) (\<lambda>d5.
         exn_bind (init_metrics_rb e ''mem'') (\<lambda>rb_mem.
         exn_bind (set_path d5 [''/node/vm'', n, ''/node/vm/mem''] (Dict rb_mem)) (\<lambda>d6.
         Inr (set_dependencies self deps, d6))))))))))))"

definition KBNet_init ::
  "'a EngineBase_scheme \<Rightarrow> string \<Rightarrow> string \<Rightarrow> Subservice option \<Rightarrow> exn + Subservice \<times> pydict" where
  "KBNet_init e n fw parent =
     (let self = Subservice_init e (KBNet fw) ''kb'' n parent True;
          deps = map (\<lambda>dep. Subservice_init e PlainSubservice dep [] (Some self) True)
                   [''proc'', ''mem'', ''net'']
      in exn_bind (set_path (data e) [''/node/kb'', n] (Dict [])) (\<lambda>d1.
         exn_bind (init_metrics_rb e ''kb'') (\<lambda>rb_kb.
         exn_bind (set_path d1 [''/node/kb'', n, ''/node/kb''] (Dict rb_kb)) (\<lambda>d2.
         exn_bind (set_path d2 [''/node/kb'', n, ''/node/kb/net/if''] (Dict [])) (\<lambda>d3.
         exn_bind (init_metrics_rb e ''mem'') (\<lambda>rb_mem.
         exn_bind (set_path d3 [''/node/kb'', n, ''/node/kb/mem''] (Dict rb_mem)) (\<lambda>d4.
         exn_bind (init_metrics_rb e ''proc'') (\<lambda>rb_proc.
         exn_bind (set_path d4 [''/node/kb'', n, ''/node/kb/proc''] (Dict rb_proc)) (\<lambda>d5.
         Inr (set_dependencies self deps, d5))))))))))"

text \<open>\<open>Node.__init__\<close>: the node's only dependency is a new \<open>Baremetal\<close>.\<close>

definition Node_init ::
  "'a EngineBase_scheme \<Rightarrow> string \<Rightarrow> Subservice option \<Rightarrow> exn + Subservice \<times> pydict" where
  "Node_init e n parent =
     (let self = Subservice_init e Node ''node'' n parent True
      in exn_bind (Baremetal_init e [] (Some self)) (\<lambda>(bm, d).
         Inr (set_dependencies self [bm], d)))"

subsection \<open>Adding and removing VMs and kernel-bypass networks\<close>

text \<open>
  \<open>del_metrics\<close>: \<open>VM\<close> and \<open>KBNet\<close> overload it to delete their scope of the store; the
  other classes inherit \<open>pass\<close>.
\<close>

definition del_metrics :: "Subservice \<Rightarrow> pydict \<Rightarrow> exn + pydict" where
  "del_metrics s d =
     (case klass s of
        VM hyp \<Rightarrow> del_path d [''/node/vm'', name s]
      | KBNet fw \<Rightarrow> del_path d [''/node/kb'', name s]
      | _ \<Rightarrow> Inr d)"

text \<open>
  The loops of \<open>Node.remove_vm\<close> and \<open>Node.remove_kbnet\<close>: the first dependency of the
  class with the name has its metrics deleted and is taken out of the list; the loop
  stops there.
\<close>

fun remove_vm_loop :: "string \<Rightarrow> Subservice list \<Rightarrow> pydict \<Rightarrow> exn + Subservice list \<times> pydict" where
  "remove_vm_loop n [] d = Inr ([], d)"
| "remove_vm_loop n (s # ss) d =
     (if is_VM (klass s) \<and> name s = n
      then exn_bind (del_metrics s d) (\<lambda>d'. Inr (ss, d'))
      else exn_bind (remove_vm_loop n ss d) (\<lambda>(ss', d'). Inr (s # ss', d')))"

fun remove_kbnet_loop :: "string \<Rightarrow> Subservice list \<Rightarrow> pydict \<Rightarrow> exn + Subservice list \<times> pydict" where
  "remove_kbnet_loop n [] d = Inr ([], d)"
| "remove_kbnet_loop n (s # ss) d =
     (if is_KBNet (klass s) \<and> name s = n
      then exn_bind (del_metrics s d) (\<lambda>d'. Inr (ss, d'))
      else exn_bind (remove_kbnet_loop n ss d) (\<lambda>(ss', d'). Inr (s # ss', d')))"

text \<open>
  The methods of \<open>Node\<close>, on the engine's root: they return the root and the store as the
  call leaves them.
\<close>

definition Node_add_vm :: "HealthEngine \<Rightarrow> string \<Rightarrow> string \<Rightarrow> exn + Subservice \<times> pydict" where
  "Node_add_vm e n hyp =
     exn_bind (VM_init e n hyp (Some (root e))) (\<lambda>(vm, d).
     Inr (set_dependencies (root e) (dependencies (root e) @ [vm]), d))"

definition Node_add_kbnet :: "HealthEngine \<Rightarrow> string \<Rightarrow> string \<Rightarrow> exn + Subservice \<times> pydict" where
  "Node_add_kbnet e n fw =
     exn_bind (KBNet_init e n fw (Some (root e))) (\<lambda>(kb, d).
     Inr (set_dependencies (root e) (dependencies (root e) @ [kb]), d))"

definition Node_remove_vm :: "HealthEngine \<Rightarrow> string \<Rightarrow> exn + Subservice \<times> pydict" where
  "Node_remove_vm e n =
     exn_bind (remove_vm_loop n (dependencies (root e)) (data e)) (\<lambda>(deps, d).
     Inr (set_dependencies (root e) deps, d))"

definition Node_remove_kbnet :: "HealthEngine \<Rightarrow> string \<Rightarrow> exn + Subservice \<times> pydict" where
  "Node_remove_kbnet e n =
     exn_bind (remove_kbnet_loop n (dependencies (root e)) (data e)) (\<lambda>(deps, d).
     Inr (set_dependencies (root e) deps, d))"

definition update_graph_changed_timestamp :: "HealthEngine \<Rightarrow> HealthEngine" where
  "update_graph_changed_timestamp e = e\<lparr>dependency_graph_changed := now e\<rparr>"

text \<open>
  The methods of \<open>HealthEngine\<close>; \<open>add_vm\<close> and \<open>add_kbnet\<close> are given the default
  hypervisor \<open>virtualbox\<close> and framework \<open>vpp\<close> by their only callers.
\<close>

definition add_vm :: "string \<Rightarrow> string \<Rightarrow> HealthEngine \<Rightarrow> exn + HealthEngine" where
  "add_vm n hyp e =
     exn_bind (Node_add_vm e n hyp) (\<lambda>(r, d).
     Inr (update_graph_changed_timestamp (e\<lparr>data := d, root := r\<rparr>)))"

definition add_kbnet :: "string \<Rightarrow> string \<Rightarrow> HealthEngine \<Rightarrow> exn + HealthEngine" where
  "add_kbnet n fw e =
     exn_bind (Node_add_kbnet e n fw) (\<lambda>(r, d).
     Inr (update_graph_changed_timestamp (e\<lparr>data := d, root := r\<rparr>)))"

definition remove_vm :: "string \<Rightarrow> HealthEngine \<Rightarrow> exn + HealthEngine" where
  "remove_vm n e =
     exn_bind (Node_remove_vm e n) (\<lambda>(r, d).
     Inr (update_graph_changed_timestamp (e\<lparr>data := d, root := r\<rparr>)))"

definition remove_kbnet :: "string \<Rightarrow> HealthEngine \<Rightarrow> exn + HealthEngine" where
  "remove_kbnet n e =
     exn_bind (Node_remove_kbnet e n) (\<lambda>(r, d).
     Inr (update_graph_changed_timestamp (e\<lparr>data := d, root := r\<rparr>)))"

text \<open>
  The elements of the Python set \<open>set(xs) - set(ys)\<close>, each once. Python does not fix
  the order in which a \<open>for\<close> loop visits a set; the model visits it in the order of
  \<open>xs\<close>.
\<close>

definition set_minus :: "string list \<Rightarrow> string list \<Rightarrow> string list" where
  "set_minus xs ys = filter (\<lambda>x. x \<notin> set ys) (remdups xs)"

definition vm_names :: "Subservice \<Rightarrow> string list" where
  "vm_names r = map name (filter (\<lambda>s. is_VM (klass s)) (dependencies r))"

definition kb_names :: "Subservice \<Rightarrow> string list" where
  "kb_names r = map name (filter (\<lambda>s. is_KBNet (klass s)) (dependencies r))"

text \<open>\<open>HealthEngine._update_dependency_graph\<close>.\<close>

definition update_dependency_graph :: "HealthEngine \<Rightarrow> exn + HealthEngine" where
  "update_dependency_graph e =
     (let vms = vm_names (root e);
          kbs = kb_names (root e)
      in exn_bind (get_dict (data e) ''virtualbox/vms'') (\<lambda>m_vms.
         exn_bind (get_dict (data e) ''vpp/gnmi'') (\<lambda>m_kbs.
         let monitored_vms = keys m_vms;
             monitored_kbs = keys m_kbs
         in exn_bind (for_each remove_vm (set_minus vms monitored_vms) e) (\<lambda>e1.
            exn_bind (for_each remove_kbnet (set_minus kbs monitored_kbs) e1) (\<lambda>e2.
            exn_bind (for_each (\<lambda>vm. add_vm vm ''virtualbox'') (set_minus monitored_vms vms) e2) (\<lambda>e3.
            for_each (\<lambda>kb. add_kbnet kb ''vpp'') (set_minus monitored_kbs kbs) e3))))))"

subsection \<open>Loading the rule file\<close>

text \<open>
  A row of \<open>rules.csv\<close> as \<open>csv.DictReader\<close> yields it, for a file whose header names
  the four columns \<open>name, path, severity, rule\<close>: a field that the row is too short to
  hold is \<open>None\<close>.
\<close>

record rule_row =
  row_name :: "string option"
  row_path :: "string option"
  row_severity :: "string option"
  row_rule :: "string option"

text \<open>\<open>str.upper\<close> on ASCII letters.\<close>

definition upper_char :: "char \<Rightarrow> char" where
  "upper_char c =
     (let n = (of_char c :: nat) in if 97 \<le> n \<and> n \<le> 122 then char_of (n - 32) else c)"

text \<open>
  \<open>Severity[str.upper(x)]\<close>: \<open>str.upper\<close> raises \<open>TypeError\<close> on \<open>None\<close>, and the lookup
  of a name that is not a member of the enumeration raises \<open>KeyError\<close>. Modelled from
  the spec: the members of \<open>Severity\<close> (\<open>agent.core.rbuffer\<close> is not part of the sources
  at hand) are green, orange and red.
\<close>

definition parse_severity :: "string option \<Rightarrow> exn + Severity" where
  "parse_severity x =
     (case x of
        None \<Rightarrow> Inl TypeError
      | Some s \<Rightarrow>
          (let u = map upper_char s
           in if u = ''GREEN'' then Inr GREEN
              else if u = ''ORANGE'' then Inr ORANGE
              else if u = ''RED'' then Inr RED
              else Inl (KeyError u)))"

text \<open>\<open>"{}".format(x)\<close> for a string or \<open>None\<close>.\<close>

definition format_str :: "string option \<Rightarrow> string" where
  "format_str x = (case x of None \<Rightarrow> ''None'' | Some s \<Rightarrow> s)"

text \<open>
  The loop of \<open>HealthEngine._read_rule_file\<close> over the rows, with \<open>self._symptoms_args\<close>
  and the lines given to \<open>self.info\<close> as accumulators. \<open>safe_rule\<close> stands for the two
  calls into \<open>agent.assurance.symptoms\<close> (not part of the sources at hand),
  \<open>Symptom(name, path, severity, rule, self)\<close> followed by \<open>symptom._safe_rule(metrics)\<close>:
  it raises or answers whether the rule is safe. Only the \<open>KeyError\<close> of the severity
  lookup is caught; any other exception leaves the loop and the function.
\<close>

fun read_rule_loop ::
  "(string option \<times> string option \<times> Severity \<times> string option \<Rightarrow> string list \<Rightarrow> exn + bool)
     \<Rightarrow> string list \<Rightarrow> rule_row list
     \<Rightarrow> (string option \<times> string option \<times> Severity \<times> string option) list \<times> string list
     \<Rightarrow> exn + (string option \<times> string option \<times> Severity \<times> string option) list \<times> string list" where
  "read_rule_loop safe_rule ms [] acc = Inr acc"
| "read_rule_loop safe_rule ms (r # rs) (args, log) =
     (case parse_severity (row_severity r) of
        Inl (KeyError k) \<Rightarrow>
          read_rule_loop safe_rule ms rs
            (args, log @ [''Invalid rule Severity: '' @ format_str (row_severity r)])
      | Inl e \<Rightarrow> Inl e
      | Inr sev \<Rightarrow>
          (case safe_rule (row_name r, row_path r, sev, row_rule r) ms of
             Inl e \<Rightarrow> Inl e
           | Inr False \<Rightarrow>
               read_rule_loop safe_rule ms rs
                 (args, log @ [''Invalid rule: '' @ format_str (row_rule r)])
           | Inr True \<Rightarrow>
               read_rule_loop safe_rule ms rs
                 (args @ [(row_name r, row_path r, sev, row_rule r)], log)))"

text \<open>
  \<open>HealthEngine._read_rule_file\<close> on the rows of a rule file that can be opened: the new
  \<open>self._symptoms_args\<close> and the lines logged, or the exception that leaves the function.
\<close>

definition read_rule_file ::
  "(string option \<times> string option \<times> Severity \<times> string option \<Rightarrow> string list \<Rightarrow> exn + bool)
     \<Rightarrow> 'a EngineBase_scheme \<Rightarrow> rule_row list
     \<Rightarrow> exn + (string option \<times> string option \<times> Severity \<times> string option) list \<times> string list" where
  "read_rule_file safe_rule e rows = read_rule_loop safe_rule (keys (metrics e)) rows ([], [])"

text \<open>
  \<open>HealthEngine.__init__\<close>, from the store it is given, the results \<open>metrics_lookup\<close> and
  \<open>metrics\<close> of \<open>_read_metrics_file\<close> and the rows of the rule file: the engine and the
  lines logged, or the exception that ends the start of the agent.
\<close>

definition HealthEngine_init ::
  "(string option \<times> string option \<times> Severity \<times> string option \<Rightarrow> string list \<Rightarrow> exn + bool)
     \<Rightarrow> EngineBase \<Rightarrow> rule_row list \<Rightarrow> exn + HealthEngine \<times> string list" where
  "HealthEngine_init safe_rule b rows =
     (let d0 = AList.update ''health_scores'' (Scores [])
                 (AList.update ''symptoms'' (Symptoms [])
                   (AList.update ''/node/kb'' (Dict [])
                     (AList.update ''/node/vm'' (Dict []) (data b))));
          b0 = b\<lparr>data := d0\<rparr>
      in exn_bind (read_rule_file safe_rule b0 rows) (\<lambda>(args, log).
         let b1 = b0\<lparr>symptoms_args := args\<rparr>
         in exn_bind (Node_init b1 (node b1) None) (\<lambda>(r, d).
            Inr (update_graph_changed_timestamp
                   \<lparr>data = d, sample_per_min = sample_per_min b1,
                    metrics_lookup = metrics_lookup b1, metrics = metrics b1,
                    symptoms_args = symptoms_args b1, system = system b1, node = node b1,
                    rb_max_len = rb_max_len b1, now = now b1,
                    root = r, dependency_graph_changed = 0\<rparr>,
                 log))))"

subsection \<open>Refreshing the metrics\<close>

text \<open>
  A ring buffer of the store at a path; a dict or a missing key there is an exception.
\<close>

definition get_buf :: "pydict \<Rightarrow> string list \<Rightarrow> exn + RingBuffer" where
  "get_buf d ks =
     exn_bind (get_path d ks) (\<lambda>v. case v of Buf rb \<Rightarrow> Inr rb | _ \<Rightarrow> Inl TypeError)"

text \<open>\<open>d[k1]...[kn].append(x)\<close>.\<close>

definition append_at :: "pydict \<Rightarrow> string list \<Rightarrow> pyval \<Rightarrow> exn + pydict" where
  "append_at d ks x =
     exn_bind (get_buf d ks) (\<lambda>rb. set_path d ks (Buf (rb_append rb x)))"

text \<open>The keys of the table \<open>funcs\<close> of \<open>Subservice._update_metrics\<close>.\<close>

definition funcs_keys :: "(string \<times> string) list" where
  "funcs_keys =
     [(''Linux'', ''/node/bm/cpu''), (''Linux'', ''/node/bm/sensors''),
      (''Linux'', ''/node/bm/disks''), (''Linux'', ''/node/bm/mem''),
      (''Linux'', ''/node/bm/proc''), (''Linux'', ''/node/bm/net''),
      (''Linux'', ''/node/vm/cpu''), (''Linux'', ''/node/vm/mem''),
      (''Linux'', ''/node/vm/net''), (''Linux'', ''/node/vm/proc''),
      (''Linux'', ''/node/kb/proc''), (''Linux'', ''/node/kb/mem''),
      (''Linux'', ''/node/kb/net''),
      (''Windows'', ''/node/bm/cpu''), (''MacOS'', ''/node/bm/cpu'')]"

text \<open>
  \<open>_update_metrics\<close>, by the class of the subservice. \<open>Node\<close> and \<open>Baremetal\<close> do nothing.
  \<open>VM\<close> and \<open>KBNet\<close> set \<open>self.active\<close> from the most recent state of the hypervisor or
  framework and append it to their own \<open>active\<close> metric. A plain \<open>Subservice\<close> looks its
  function up by \<open>(system, path)\<close>, \<open>KeyError\<close> when the table has no such key; the
  functions for Linux copy samples between scopes with floating-point arithmetic and are
  given as the parameter \<open>leaf\<close>, which gets the path, the parent and the store and
  returns the store; the functions for Windows and MacOS do nothing.
\<close>

definition own_update_metrics ::
  "(string \<Rightarrow> Subservice option \<Rightarrow> pydict \<Rightarrow> exn + pydict) \<Rightarrow> string \<Rightarrow> Subservice option
     \<Rightarrow> Subservice \<Rightarrow> pydict \<Rightarrow> exn + Subservice \<times> pydict" where
  "own_update_metrics leaf sys parent self d =
     (case klass self of
        Node \<Rightarrow> Inr (self, d)
      | Baremetal \<Rightarrow> Inr (self, d)
      | VM hyp \<Rightarrow>
          exn_bind (get_buf d [hyp @ ''/vms'', name self, ''state'']) (\<lambda>rb.
          exn_bind (top rb) (\<lambda>v.
          let act = py_eq_str v ''Running''
          in exn_bind (append_at d [''/node/vm'', name self, ''/node/vm'', ''active''] (PBool act))
               (\<lambda>d'. Inr (set_active self act, d'))))
      | KBNet fw \<Rightarrow>
          exn_bind (get_buf d [fw @ ''/gnmi'', name self, ''status'']) (\<lambda>rb.
          exn_bind (top rb) (\<lambda>v.
          let act = py_eq_str v ''synced''
          in exn_bind (append_at d [''/node/kb'', name self, ''/node/kb'', ''active''] (PBool act))
               (\<lambda>d'. Inr (set_active self act, d'))))
      | PlainSubservice \<Rightarrow>
          (if (sys, path self) \<notin> set funcs_keys then Inl (KeyError (path self))
           else if sys = ''Linux''
           then exn_bind (leaf (path self) parent d) (\<lambda>d'. Inr (self, d'))
           else Inr (self, d)))"

text \<open>
  \<open>Subservice.update_metrics\<close>: the subservice's own refresh, then, unless the
  subservice is not active, the refresh of each dependency in turn, with the subservice
  as parent.
\<close>

fun update_metrics ::
  "(string \<Rightarrow> Subservice option \<Rightarrow> pydict \<Rightarrow> exn + pydict) \<Rightarrow> string \<Rightarrow> Subservice option
     \<Rightarrow> Subservice \<Rightarrow> pydict \<Rightarrow> exn + Subservice \<times> pydict"
and update_metrics_deps ::
  "(string \<Rightarrow> Subservice option \<Rightarrow> pydict \<Rightarrow> exn + pydict) \<Rightarrow> string \<Rightarrow> Subservice option
     \<Rightarrow> Subservice list \<Rightarrow> pydict \<Rightarrow> exn + Subservice list \<times> pydict" where
  "update_metrics leaf sys parent (Subservice k t n i a fn p hs sy ps deps) d =
     exn_bind (own_update_metrics leaf sys parent (Subservice k t n i a fn p hs sy ps deps) d)
       (\<lambda>(self', d').
          if \<not> active self' then Inr (self', d')
          else exn_bind (update_metrics_deps leaf sys (Some self') deps d')
                 (\<lambda>(deps', d''). Inr (set_dependencies self' deps', d'')))"
| "update_metrics_deps leaf sys parent [] d = Inr ([], d)"
| "update_metrics_deps leaf sys parent (c # cs) d =
     exn_bind (update_metrics leaf sys parent c d) (\<lambda>(c', d').
     exn_bind (update_metrics_deps leaf sys parent cs d') (\<lambda>(cs', d'').
     Inr (c' # cs', d'')))"

subsection \<open>The engine cycle\<close>

text \<open>\<open>HealthEngine.update_health\<close>.\<close>

definition update_health ::
  "(Symptom \<Rightarrow> pydict \<Rightarrow> bool) \<Rightarrow> (string \<Rightarrow> Subservice option \<Rightarrow> pydict \<Rightarrow> exn + pydict)
     \<Rightarrow> HealthEngine \<Rightarrow> exn + HealthEngine" where
  "update_health check leaf e =
     exn_bind (update_dependency_graph e) (\<lambda>e1.
     exn_bind (update_metrics leaf (system e1) None (root e1) (data e1)) (\<lambda>(r2, d2).
     case update_symptoms check d2 r2 of
       ((positives, health_scores), r3) \<Rightarrow>
         Inr (e1\<lparr>data := AList.update ''health_scores'' (Scores health_scores)
                           (AList.update ''symptoms'' (Symptoms positives) d2),
                 root := r3\<rparr>)))"

text \<open>
  The agent of dxagent.py: its engine (whose store is the agent's \<open>_data\<close>), the
  arguments \<open>disable_shm\<close> and \<open>verbose\<close>, and the shared buffer as the list of what
  \<open>sbuffer.write\<close> was given, the store and the keys to skip, oldest first.
\<close>

record DXAgent =
  engine :: HealthEngine
  disable_shm :: bool
  verbose :: bool
  sbuffer :: "(pydict \<times> string list) list"

text \<open>
  \<open>DXAgent.process\<close>, without the rescheduling at its end. \<open>input\<close> stands for
  \<open>self._input()\<close>, the three watchers writing into the store. The result is the engine,
  or the exception that left the call, and the shared buffer as the call leaves it.
\<close>

definition process ::
  "(pydict \<Rightarrow> exn + pydict) \<Rightarrow> (Symptom \<Rightarrow> pydict \<Rightarrow> bool)
     \<Rightarrow> (string \<Rightarrow> Subservice option \<Rightarrow> pydict \<Rightarrow> exn + pydict)
     \<Rightarrow> DXAgent \<Rightarrow> (exn + HealthEngine) \<times> (pydict \<times> string list) list" where
  "process input check leaf a =
     (case exn_bind (input (data (engine a)))
             (\<lambda>d0. update_health check leaf ((engine a)\<lparr>data := d0\<rparr>)) of
        Inl x \<Rightarrow> (Inl x, sbuffer a)
      | Inr e' \<Rightarrow>
          (Inr e',
           if \<not> disable_shm a
           then sbuffer a @ [(data e', if \<not> verbose a then [''stats''] else [])]
           else sbuffer a))"

section \<open>Notions used to state the properties\<close>

text \<open>
  The dependencies of a subservice that are \<open>Baremetal\<close>, and those that are neither
  \<open>VM\<close> nor \<open>KBNet\<close>.
\<close>

definition bm_children :: "Subservice \<Rightarrow> Subservice list" where
  "bm_children r = filter (\<lambda>s. klass s = Baremetal) (dependencies r)"

definition other_children :: "Subservice \<Rightarrow> Subservice list" where
  "other_children r = filter (\<lambda>s. \<not> is_VM (klass s) \<and> \<not> is_KBNet (klass s)) (dependencies r)"

text \<open>An entry of the store without metric history: every ring buffer in it is empty.\<close>

fun no_samples :: "entry \<Rightarrow> bool" where
  "no_samples (Buf rb) = (samples rb = [])"
| "no_samples (Dict m) = list_all no_samples (map snd m)"
| "no_samples (Symptoms xs) = True"
| "no_samples (Scores xs) = True"

text \<open>
  The engines that the agent can hold: the one that \<open>HealthEngine.__init__\<close> builds, and
  from there any sequence of the operations that change the graph, with the watchers
  changing the store in any way in between.
\<close>

inductive reachable :: "HealthEngine \<Rightarrow> bool" where
  start: "HealthEngine_init safe_rule b rows = Inr (e, log) \<Longrightarrow> reachable e"
| watchers: "reachable e \<Longrightarrow> reachable (e\<lparr>data := d\<rparr>)"
| by_add_vm: "reachable e \<Longrightarrow> add_vm n hyp e = Inr e' \<Longrightarrow> reachable e'"
| by_add_kbnet: "reachable e \<Longrightarrow> add_kbnet n fw e = Inr e' \<Longrightarrow> reachable e'"
| by_remove_vm: "reachable e \<Longrightarrow> remove_vm n e = Inr e' \<Longrightarrow> reachable e'"
| by_remove_kbnet: "reachable e \<Longrightarrow> remove_kbnet n e = Inr e' \<Longrightarrow> reachable e'"
| by_reconcile: "reachable e \<Longrightarrow> update_dependency_graph e = Inr e' \<Longrightarrow> reachable e'"

section \<open>The score arithmetic in the words of the specification\<close>

text \<open>Subtraction saturating at 0.\<close>

definition saturating_sub :: "int \<Rightarrow> int \<Rightarrow> int" where
  "saturating_sub h m = max 0 (h - m)"

text \<open>
  The score as the specification words it: start at 100; for each impacting child
  subtract \<open>100 - child.health_score\<close>, saturating at 0; then for each bound symptom
  that fires subtract its severity weight, saturating at 0. \<open>children\<close> are the
  dependencies after their own aggregation.
\<close>

definition spec_health_score ::
  "(Symptom \<Rightarrow> pydict \<Rightarrow> bool) \<Rightarrow> pydict \<Rightarrow> Symptom list \<Rightarrow> Subservice list \<Rightarrow> int" where
  "spec_health_score check d syms children =
     fold (\<lambda>s h. saturating_sub h (sym_weight s)) (filter (\<lambda>s. check s d) syms)
       (fold (\<lambda>c h. saturating_sub h (100 - health_score c)) (filter impacting children) 100)"

section \<open>Example inputs\<close>

text \<open>
  A small graph \<open>node -- bm -- cpu\<close> with an orange symptom bound to the cpu subservice,
  and a non-impacting subservice with a red symptom.
\<close>

definition ex_symptom :: Symptom where
  "ex_symptom = Symptom (Some ''R1'') (Some ''/node/bm/cpu'') ORANGE (Some ''cpu_idle < 5'')
                  (Some ''/node[name=h]/bm/cpu'')"

definition ex_cpu :: Subservice where
  "ex_cpu = Subservice PlainSubservice ''cpu'' [] True True
              ''/node[name=h]/bm/cpu'' ''/node/bm/cpu'' 100 [ex_symptom] [] []"

definition ex_bm :: Subservice where
  "ex_bm = Subservice Baremetal ''bm'' [] True True
             ''/node[name=h]/bm'' ''/node/bm'' 100 [] [] [ex_cpu]"

definition ex_root :: Subservice where
  "ex_root = Subservice Node ''node'' ''h'' True True ''/node[name=h]'' ''/node'' 100 [] [] [ex_bm]"

definition ex_red :: Symptom where
  "ex_red = Symptom (Some ''R2'') (Some ''/node/bm/mem'') RED (Some ''free < 1'')
              (Some ''/node[name=h]/bm/mem'')"

definition ex_info :: Subservice where
  "ex_info = Subservice PlainSubservice ''mem'' [] False True
               ''/node[name=h]/bm/mem'' ''/node/bm/mem'' 100 [ex_red] [] []"

definition ex_silent :: Subservice where
  "ex_silent = Subservice PlainSubservice ''mem'' [] False True
                 ''/node[name=h]/bm/mem'' ''/node/bm/mem'' 100 [] [] []"

text \<open>
  An engine whose root has the baremetal subservice, the VMs \<open>vm1\<close> and \<open>vm3\<close> and the
  kernel-bypass network \<open>kb0\<close>, on a store where the watchers now see the VM \<open>vm2\<close>
  and the kernel-bypass network \<open>kb1\<close>.
\<close>

definition ex_rb :: "vtype \<Rightarrow> pyval list \<Rightarrow> RingBuffer" where
  "ex_rb t xs = \<lparr>max_len = 3, rb_type = t, rb_unit = [], rb_counter = False, samples = xs\<rparr>"

definition ex_lookup :: "(string \<times> metrics_rec) list" where
  "ex_lookup =
     [(''vm'', \<lparr>rec_types = [TBool], rec_units = [[]], rec_names = [''active'']\<rparr>),
      (''kb'', \<lparr>rec_types = [TBool], rec_units = [[]], rec_names = [''active'']\<rparr>),
      (''proc'', \<lparr>rec_types = [TInt], rec_units = [[]], rec_names = [''total_count'']\<rparr>),
      (''net'', \<lparr>rec_types = [TBool], rec_units = [[]], rec_names = [''ssh'']\<rparr>),
      (''mem'', \<lparr>rec_types = [TInt], rec_units = [''MB''], rec_names = [''total'']\<rparr>)]"

definition ex_vm :: "string \<Rightarrow> Subservice" where
  "ex_vm n = Subservice (VM ''virtualbox'') ''vm'' n True True
               (''/node[name=h]/vm[name='' @ n @ '']'') ''/node/vm'' 100 [] [] []"

definition ex_kb :: "string \<Rightarrow> Subservice" where
  "ex_kb n = Subservice (KBNet ''vpp'') ''kb'' n True True
               (''/node[name=h]/kb[name='' @ n @ '']'') ''/node/kb'' 100 [] [] []"

definition ex_store :: pydict where
  "ex_store =
     [(''virtualbox/vms'', Dict [(''vm2'', Dict [(''state'', Buf (ex_rb TStr [PStr ''Running'']))])]),
      (''vpp/gnmi'', Dict [(''kb1'', Dict [(''status'', Buf (ex_rb TStr [PStr ''synced'']))])]),
      (''/node/vm'',
         Dict [(''vm1'', Dict [(''/node/vm'', Dict [(''active'', Buf (ex_rb TBool [PBool True]))])]),
               (''vm3'', Dict [])]),
      (''/node/kb'', Dict [(''kb0'', Dict [])])]"

definition ex_engine :: HealthEngine where
  "ex_engine =
     \<lparr>data = ex_store, sample_per_min = 20, metrics_lookup = ex_lookup, metrics = [],
      symptoms_args = [], system = ''Linux'', node = ''h'', rb_max_len = 3, now = 7,
      root = Subservice Node ''node'' ''h'' True True ''/node[name=h]'' ''/node'' 100 [] []
               [ex_bm, ex_vm ''vm1'', ex_kb ''kb0'', ex_vm ''vm3''],
      dependency_graph_changed = 0\<rparr>"

text \<open>
  The engine before its graph is built, on a store where the watchers have found the VM
  \<open>vm2\<close> and the kernel-bypass network \<open>kb1\<close>.
\<close>

definition ex_base :: EngineBase where
  "ex_base =
     \<lparr>data = [(''virtualbox/vms'',
                  Dict [(''vm2'', Dict [(''state'', Buf (ex_rb TStr [PStr ''Running'']))])]),
              (''vpp/gnmi'',
                  Dict [(''kb1'', Dict [(''status'', Buf (ex_rb TStr [PStr ''synced'']))])])],
      sample_per_min = 20, metrics_lookup = ex_lookup, metrics = [],
      symptoms_args = [], system = ''Linux'', node = ''h'', rb_max_len = 3, now = 7\<rparr>"

text \<open>The engine that \<open>HealthEngine.__init__\<close> builds from it, with no rule loaded.\<close>

definition ex_engine0 :: HealthEngine where
  "ex_engine0 =
     \<lparr>data = data ex_base @
         [(''/node/vm'', Dict []), (''/node/kb'', Dict []),
          (''symptoms'', Symptoms []), (''health_scores'', Scores []),
          (''/node/bm/net/if'', Dict []),
          (''/node/bm/net'', Dict [(''ssh'', Buf (ex_rb TBool []))]),
          (''/node/bm/mem'', Dict [(''total'', Buf ((ex_rb TInt [])\<lparr>rb_unit := ''MB''\<rparr>))]),
          (''/node/bm/proc'', Dict [(''total_count'', Buf (ex_rb TInt []))])],
      sample_per_min = 20, metrics_lookup = ex_lookup, metrics = [],
      symptoms_args = [], system = ''Linux'', node = ''h'', rb_max_len = 3, now = 7,
      root = Subservice Node ''node'' ''h'' True True ''/node[name=h]'' ''/node'' 100 [] []
               [Subservice Baremetal ''bm'' [] True True ''/node[name=h]/bm'' ''/node/bm'' 100 [] []
                  (map (\<lambda>t. Subservice PlainSubservice t [] True True
                                (''/node[name=h]/bm/'' @ t) (''/node/bm/'' @ t) 100 [] [] [])
                     [''cpu'', ''sensors'', ''disks'', ''mem'', ''proc'', ''net''])],
      dependency_graph_changed = 7\<rparr>"

text \<open>
  A VM with a red symptom and a cpu subservice, a store where the hypervisor reports the
  given state for it, and a refresh function for the plain subservices that leaves a
  mark in the store.
\<close>

definition ex_down :: Symptom where
  "ex_down = Symptom (Some ''down'') (Some ''/node/vm'') RED (Some ''not active'')
               (Some ''/node[name=h]/vm[name=vm2]'')"

definition ex_vm_cpu :: Subservice where
  "ex_vm_cpu = Subservice PlainSubservice ''cpu'' [] True True
                 ''/node[name=h]/vm[name=vm2]/cpu'' ''/node/vm/cpu'' 100 [] [] []"

definition ex_vm_off :: Subservice where
  "ex_vm_off = Subservice (VM ''virtualbox'') ''vm'' ''vm2'' True True
                 ''/node[name=h]/vm[name=vm2]'' ''/node/vm'' 100 [ex_down] [] [ex_vm_cpu]"

definition ex_off_store :: "string \<Rightarrow> pydict" where
  "ex_off_store st =
     [(''virtualbox/vms'',
         Dict [(''vm2'', Dict [(''state'', Buf (ex_rb TStr [PStr ''Running'', PStr st]))])]),
      (''/node/vm'',
         Dict [(''vm2'', Dict [(''/node/vm'', Dict [(''active'', Buf (ex_rb TBool [PBool True]))])])])]"

definition ex_leaf :: "string \<Rightarrow> Subservice option \<Rightarrow> pydict \<Rightarrow> exn + pydict" where
  "ex_leaf p parent d = Inr (AList.update ''refreshed'' (Dict []) d)"

text \<open>
  An agent that holds the engine built from the example store and writes to the shared
  buffer, and a row of a rule file that ends after its path (\<open>r1,/node/bm\<close>).
\<close>

definition ex_agent :: DXAgent where
  "ex_agent = \<lparr>engine = ex_engine0, disable_shm = False, verbose = False, sbuffer = []\<rparr>"

definition ex_short_row :: rule_row where
  "ex_short_row = \<lparr>row_name = Some ''r1'', row_path = Some ''/node/bm'',
                    row_severity = None, row_rule = None\<rparr>"

section \<open>Properties of \<open>update_symptoms\<close>\<close>

lemma sym_weight_nonneg: "0 \<le> sym_weight s"
  by (cases "severity s") (simp_all add: sym_weight_def)

lemma symptoms_loop_eq:
  "symptoms_loop check d ss (ps, h) =
     (ps @ filter (\<lambda>s. check s d) ss,
      fold (\<lambda>s h. max 0 (h - sym_weight s)) (filter (\<lambda>s. check s d) ss) h)"
  by (induction ss arbitrary: ps h) simp_all

lemma deps_loop_eq:
  "deps_loop check d cs (pos, hsc, h) =
     (map (\<lambda>c. snd (update_symptoms check d c)) cs,
      pos @ concat (map (\<lambda>c. fst (fst (update_symptoms check d c))) cs),
      fold (\<lambda>c m. fold (\<lambda>(k, v). AList.update k v) (snd (fst (update_symptoms check d c))) m) cs hsc,
      fold (\<lambda>c h. max 0 (h - (100 - health_score c)))
        (filter impacting (map (\<lambda>c. snd (update_symptoms check d c)) cs)) h)"
proof (induction cs arbitrary: pos hsc h)
  case Nil
  show ?case by simp
next
  case (Cons c cs)
  obtain p hs c' where u: "update_symptoms check d c = ((p, hs), c')"
    by (metis prod.exhaust)
  show ?case
    by (simp add: u Cons.IH)
qed

text \<open>The result of \<open>update_symptoms\<close> with both loops in closed form.\<close>

lemma update_symptoms_fields:
  "update_symptoms check d (Subservice k t n i a fn p hs sy ps deps) =
   ((concat (map (\<lambda>c. fst (fst (update_symptoms check d c))) deps) @ filter (\<lambda>s. check s d) sy,
     AList.update fn
        (fold (\<lambda>s h. max 0 (h - sym_weight s)) (filter (\<lambda>s. check s d) sy)
          (fold (\<lambda>c h. max 0 (h - (100 - health_score c)))
            (filter impacting (map (\<lambda>c. snd (update_symptoms check d c)) deps)) 100))
        (fold (\<lambda>c m. fold (\<lambda>(k, v). AList.update k v) (snd (fst (update_symptoms check d c))) m) deps [])),
    Subservice k t n i a fn p
      (fold (\<lambda>s h. max 0 (h - sym_weight s)) (filter (\<lambda>s. check s d) sy)
          (fold (\<lambda>c h. max 0 (h - (100 - health_score c)))
            (filter impacting (map (\<lambda>c. snd (update_symptoms check d c)) deps)) 100))
      sy (filter (\<lambda>s. check s d) sy) (map (\<lambda>c. snd (update_symptoms check d c)) deps))"
  by (simp add: deps_loop_eq symptoms_loop_eq)

declare update_symptoms.simps [simp del]

lemma update_symptoms_impacting:
  "impacting (snd (update_symptoms check d c)) = impacting c"
  by (cases c) (simp add: update_symptoms_fields)

lemma fold_malus_range:
  "0 \<le> h \<Longrightarrow> h \<le> 100 \<Longrightarrow> \<forall>x \<in> set xs. 0 \<le> f x \<Longrightarrow>
     0 \<le> fold (\<lambda>x h. max 0 (h - f x)) xs h \<and> fold (\<lambda>x h. max 0 (h - f x)) xs (h::int) \<le> 100"
  by (induction xs arbitrary: h) auto

text \<open>
  C1. After \<open>update_symptoms\<close> on a subservice, every subservice of its tree (the
  subservice itself and all its direct and indirect dependencies) has a health score
  between 0 and 100.
\<close>

theorem update_symptoms_health_score_range:
  "\<forall>s \<in> set (iter (snd (update_symptoms check d n))). 0 \<le> health_score s \<and> health_score s \<le> 100"
proof (induction n)
  case (Subservice k t n i a fn p hs sy ps deps)
  let ?upd = "\<lambda>c. snd (update_symptoms check d c)"
  let ?kids = "filter impacting (map ?upd deps)"
  have kids: "\<forall>c \<in> set ?kids. 0 \<le> 100 - health_score c"
  proof
    fix c assume "c \<in> set ?kids"
    then obtain c0 where c0: "c0 \<in> set deps" and c: "c = ?upd c0" by auto
    have "c \<in> set (iter c)" by (cases c) simp
    with Subservice.IH [OF c0] c show "0 \<le> 100 - health_score c" by simp
  qed
  have h1: "0 \<le> fold (\<lambda>c h. max 0 (h - (100 - health_score c))) ?kids 100
        \<and> fold (\<lambda>c h. max 0 (h - (100 - health_score c))) ?kids 100 \<le> 100"
    using fold_malus_range [of 100 ?kids "\<lambda>c. 100 - health_score c"] kids by simp
  have h2: "0 \<le> fold (\<lambda>s h. max 0 (h - sym_weight s)) (filter (\<lambda>s. check s d) sy)
              (fold (\<lambda>c h. max 0 (h - (100 - health_score c))) ?kids 100)
        \<and> fold (\<lambda>s h. max 0 (h - sym_weight s)) (filter (\<lambda>s. check s d) sy)
              (fold (\<lambda>c h. max 0 (h - (100 - health_score c))) ?kids 100) \<le> 100"
    using fold_malus_range [OF conjunct1 [OF h1] conjunct2 [OF h1],
                            of "filter (\<lambda>s. check s d) sy" sym_weight]
    by (simp add: sym_weight_nonneg)
  show ?case
    using h2 Subservice.IH by (auto simp: update_symptoms_fields)
qed

theorem update_symptoms_health_score_range_witness:
  "snd (update_symptoms (\<lambda>s d. True) [] ex_cpu)
     \<in> set (iter (snd (update_symptoms (\<lambda>s d. True) [] ex_root)))
   \<and> health_score (snd (update_symptoms (\<lambda>s d. True) [] ex_cpu)) = 50
   \<and> 0 \<le> health_score (snd (update_symptoms (\<lambda>s d. True) [] ex_cpu))
   \<and> health_score (snd (update_symptoms (\<lambda>s d. True) [] ex_cpu)) \<le> 100"
proof -
  have m: "snd (update_symptoms (\<lambda>s d. True) [] ex_cpu)
             \<in> set (iter (snd (update_symptoms (\<lambda>s d. True) [] ex_root)))"
    by (simp add: ex_root_def ex_bm_def ex_cpu_def update_symptoms_fields)
  have v: "health_score (snd (update_symptoms (\<lambda>s d. True) [] ex_cpu)) = 50"
    by (simp add: ex_cpu_def ex_symptom_def update_symptoms_fields sym_weight_def)
  show ?thesis
    using m v update_symptoms_health_score_range [of "\<lambda>s d. True" "[]" ex_root]
    by blast
qed

text \<open>
  C3. The score that \<open>update_symptoms\<close> leaves in a subservice is the score of the
  specification: 100, less \<open>100 - child.health_score\<close> for each impacting dependency
  (after the dependency's own update), saturating at 0, less the weight of each bound
  symptom that fires, saturating at 0. A subservice none of whose symptoms fires and
  none of whose dependencies is impacting ends with score 100.
\<close>

theorem update_symptoms_score_spec:
  "health_score (snd (update_symptoms check d n)) =
     spec_health_score check d (symptoms n) (dependencies (snd (update_symptoms check d n)))
   \<and> dependencies (snd (update_symptoms check d n)) =
       map (\<lambda>c. snd (update_symptoms check d c)) (dependencies n)
   \<and> ((\<forall>s \<in> set (symptoms n). \<not> check s d) \<and> (\<forall>c \<in> set (dependencies n). \<not> impacting c)
        \<longrightarrow> health_score (snd (update_symptoms check d n)) = 100)"
proof (cases n)
  case (Subservice k t nm i a fn p hs sy ps deps)
  have f1: "(\<forall>s \<in> set sy. \<not> check s d) \<Longrightarrow> filter (\<lambda>s. check s d) sy = []"
    by (induction sy) auto
  have f2: "(\<forall>c \<in> set deps. \<not> impacting c) \<Longrightarrow>
     filter impacting (map (\<lambda>c. snd (update_symptoms check d c)) deps) = []"
    by (induction deps) (auto simp: update_symptoms_impacting)
  show ?thesis
    unfolding Subservice
    by (auto simp: update_symptoms_fields spec_health_score_def saturating_sub_def f1 f2)
qed

theorem update_symptoms_score_spec_witness:
  "symptoms ex_info = [ex_red] \<and> dependencies ex_info = []
   \<and> health_score (snd (update_symptoms (\<lambda>s d. False) [] ex_info)) = 100
   \<and> health_score (snd (update_symptoms (\<lambda>s d. True) [] ex_root)) =
       spec_health_score (\<lambda>s d. True) [] (symptoms ex_root)
         (dependencies (snd (update_symptoms (\<lambda>s d. True) [] ex_root)))"
proof -
  have p: "(\<forall>s \<in> set (symptoms ex_info). \<not> (\<lambda>s d. False) s ([]::pydict))
             \<and> (\<forall>c \<in> set (dependencies ex_info). \<not> impacting c)"
    by (simp add: ex_info_def)
  have q: "symptoms ex_info = [ex_red] \<and> dependencies ex_info = []"
    by (simp add: ex_info_def)
  show ?thesis
    using p q update_symptoms_score_spec [of "\<lambda>s d. False" "[]" ex_info]
      update_symptoms_score_spec [of "\<lambda>s d. True" "[]" ex_root]
    by blast
qed

text \<open>
  C4. A dependency that is not impacting does not influence the score of its parent:
  the parent's score is the same with any other non-impacting subservice in its place
  (one that fires no symptom, for example), and the same without it. Its positive
  symptoms, and those of its own dependencies, are still in the flat list that
  \<open>update_symptoms\<close> of the parent returns.
\<close>

theorem non_impacting_child:
  assumes "\<not> impacting c" and "\<not> impacting c'"
  shows "health_score (snd (update_symptoms check d (Subservice k t n i a fn p hs sy ps (xs @ c # ys)))) =
         health_score (snd (update_symptoms check d (Subservice k t n i a fn p hs sy ps (xs @ c' # ys))))
       \<and> health_score (snd (update_symptoms check d (Subservice k t n i a fn p hs sy ps (xs @ c # ys)))) =
         health_score (snd (update_symptoms check d (Subservice k t n i a fn p hs sy ps (xs @ ys))))
       \<and> set (positive_symptoms (snd (update_symptoms check d c)))
           \<subseteq> set (fst (fst (update_symptoms check d c)))
       \<and> set (fst (fst (update_symptoms check d c)))
           \<subseteq> set (fst (fst (update_symptoms check d (Subservice k t n i a fn p hs sy ps (xs @ c # ys)))))"
proof -
  have "set (positive_symptoms (snd (update_symptoms check d c)))
           \<subseteq> set (fst (fst (update_symptoms check d c)))"
    by (cases c) (simp add: update_symptoms_fields)
  then show ?thesis
    using assms by (auto simp: update_symptoms_fields update_symptoms_impacting)
qed

theorem non_impacting_child_witness:
  "\<not> impacting ex_info \<and> \<not> impacting ex_silent
   \<and> health_score (snd (update_symptoms (\<lambda>s d. True) []
        (Subservice Baremetal ''bm'' [] True True ''/node[name=h]/bm'' ''/node/bm'' 100 [] []
           ([] @ ex_info # [])))) = 100
   \<and> health_score (snd (update_symptoms (\<lambda>s d. True) []
        (Subservice Baremetal ''bm'' [] True True ''/node[name=h]/bm'' ''/node/bm'' 100 [] []
           ([] @ ex_silent # [])))) = 100
   \<and> health_score (snd (update_symptoms (\<lambda>s d. True) [] ex_info)) = 0
   \<and> ex_red \<in> set (fst (fst (update_symptoms (\<lambda>s d. True) []
        (Subservice Baremetal ''bm'' [] True True ''/node[name=h]/bm'' ''/node/bm'' 100 [] []
           ([] @ ex_info # [])))))"
proof -
  have a: "\<not> impacting ex_info" and b: "\<not> impacting ex_silent"
    by (simp_all add: ex_info_def ex_silent_def)
  have s: "health_score (snd (update_symptoms (\<lambda>s d. True) []
        (Subservice Baremetal ''bm'' [] True True ''/node[name=h]/bm'' ''/node/bm'' 100 [] []
           ([] @ ex_silent # [])))) = 100"
    by (simp add: ex_silent_def update_symptoms_fields)
  have z: "health_score (snd (update_symptoms (\<lambda>s d. True) [] ex_info)) = 0"
    by (simp add: ex_info_def ex_red_def update_symptoms_fields sym_weight_def)
  have r: "ex_red \<in> set (positive_symptoms (snd (update_symptoms (\<lambda>s d. True) [] ex_info)))"
    by (simp add: ex_info_def update_symptoms_fields)
  show ?thesis
    using a b s z r
      non_impacting_child [OF a b, of "\<lambda>s d. True" "[]" Baremetal "''bm''" "[]" True True
        "''/node[name=h]/bm''" "''/node/bm''" 100 "[]" "[]" "[]" "[]"]
    by auto
qed

section \<open>Properties of the store and of the graph operations\<close>

lemma exn_bind_Inl [simp]: "exn_bind (Inl e) f = Inl e"
  by (simp add: exn_bind_def)

lemma exn_bind_Inr [simp]: "exn_bind (Inr x) f = f x"
  by (simp add: exn_bind_def)

lemma exn_bind_eq_Inr: "exn_bind m f = Inr y \<longleftrightarrow> (\<exists>x. m = Inr x \<and> f x = Inr y)"
  by (cases m) simp_all

lemma get_dict_eq_Inr: "get_dict d k = Inr m \<longleftrightarrow> map_of d k = Some (Dict m)"
  by (auto simp: get_dict_def split: option.splits entry.splits)

lemma dependencies_set_dependencies [simp]: "dependencies (set_dependencies r deps) = deps"
  by (cases r) simp

lemma set_dependencies_fields [simp]:
  "klass (set_dependencies r deps) = klass r"
  "name (set_dependencies r deps) = name r"
  by (cases r, simp)+

text \<open>A nested write or deletion changes the outer dict at the first key of the path only.\<close>

lemma set_path_frame:
  "set_path d (k0 # ks) v = Inr d' \<Longrightarrow> k \<noteq> k0 \<Longrightarrow> map_of d' k = map_of d k"
  by (cases ks) (auto simp: exn_bind_eq_Inr update_conv')

lemma del_path_frame:
  "del_path d (k0 # k1 # ks) = Inr d' \<Longrightarrow> k \<noteq> k0 \<Longrightarrow> map_of d' k = map_of d k"
  by (auto simp: exn_bind_eq_Inr update_conv')

text \<open>A nested write \<open>d[k1]...[kn][k] = v\<close> updates the dict at \<open>d[k1]...[kn]\<close>.\<close>

lemma set_path_last:
  "set_path d (ks @ [k]) v = Inr d' \<Longrightarrow>
     \<exists>m. get_path d ks = Inr (Dict m) \<and> get_path d' ks = Inr (Dict (AList.update k v m))"
proof (induction ks arbitrary: d d')
  case Nil
  then show ?case by simp
next
  case (Cons a ks)
  from Cons.prems obtain m0 m0' where
    g: "get_dict d a = Inr m0" and s: "set_path m0 (ks @ [k]) v = Inr m0'"
    and d': "d' = AList.update a (Dict m0') d"
    by (cases ks) (auto simp: exn_bind_eq_Inr)
  from Cons.IH [OF s] obtain m where
    m: "get_path m0 ks = Inr (Dict m)" "get_path m0' ks = Inr (Dict (AList.update k v m))"
    by blast
  have ga: "get_dict d' a = Inr m0'"
    by (simp add: d' get_dict_eq_Inr update_conv')
  show ?case
  proof (cases ks)
    case Nil
    with m g ga show ?thesis
      by (auto simp: get_dict_eq_Inr)
  next
    case (Cons b ks')
    with m g ga show ?thesis by simp
  qed
qed

lemma del_path2:
  "del_path d [a, n] = Inr d' \<longleftrightarrow>
     (\<exists>m. map_of d a = Some (Dict m) \<and> n \<in> set (keys m)
          \<and> d' = AList.update a (Dict (AList.delete n m)) d)"
  by (auto simp: exn_bind_eq_Inr get_dict_eq_Inr del_key_def)

lemma del_path2_effect:
  assumes "del_path d [a, n] = Inr d'"
  shows "\<exists>m. map_of d a = Some (Dict m) \<and> n \<in> set (keys m)
          \<and> d' = AList.update a (Dict (AList.delete n m)) d
          \<and> get_path d' [a, n] = Inl (KeyError n)
          \<and> (\<forall>n'. n' \<noteq> n \<longrightarrow> get_path d' [a, n'] = get_path d [a, n'])
          \<and> (\<forall>k. k \<noteq> a \<longrightarrow> map_of d' k = map_of d k)"
proof -
  from assms obtain m where m: "map_of d a = Some (Dict m)" "n \<in> set (keys m)"
    "d' = AList.update a (Dict (AList.delete n m)) d"
    using del_path2 [of d a n d'] by blast
  have g: "get_dict d a = Inr m" "get_dict d' a = Inr (AList.delete n m)"
    using m by (simp_all add: get_dict_eq_Inr update_conv')
  have "get_path d' [a, n] = Inl (KeyError n)"
    using g by (simp add: delete_conv')
  moreover have "\<forall>n'. n' \<noteq> n \<longrightarrow> get_path d' [a, n'] = get_path d [a, n']"
    using g by (simp add: delete_conv')
  moreover have "\<forall>k. k \<noteq> a \<longrightarrow> map_of d' k = map_of d k"
    using m by (simp add: update_conv')
  ultimately show ?thesis using m by blast
qed

text \<open>The dependencies after the loops of \<open>remove_vm\<close> and \<open>remove_kbnet\<close>.\<close>

lemma remove_vm_loop_names:
  "remove_vm_loop n ss d = Inr (ss', d') \<Longrightarrow>
     map name (filter (\<lambda>s. is_VM (klass s)) ss') =
       remove1 n (map name (filter (\<lambda>s. is_VM (klass s)) ss))
     \<and> filter (\<lambda>s. \<not> is_VM (klass s)) ss' = filter (\<lambda>s. \<not> is_VM (klass s)) ss"
  by (induction ss arbitrary: ss' d') (auto simp: exn_bind_eq_Inr split: if_splits)

lemma remove_kbnet_loop_names:
  "remove_kbnet_loop n ss d = Inr (ss', d') \<Longrightarrow>
     map name (filter (\<lambda>s. is_KBNet (klass s)) ss') =
       remove1 n (map name (filter (\<lambda>s. is_KBNet (klass s)) ss))
     \<and> filter (\<lambda>s. \<not> is_KBNet (klass s)) ss' = filter (\<lambda>s. \<not> is_KBNet (klass s)) ss"
  by (induction ss arbitrary: ss' d') (auto simp: exn_bind_eq_Inr split: if_splits)

text \<open>The store after the loops: untouched, or one scope deleted.\<close>

lemma remove_vm_loop_store:
  "remove_vm_loop n ss d = Inr (ss', d') \<Longrightarrow>
     (if n \<in> set (map name (filter (\<lambda>s. is_VM (klass s)) ss))
      then del_path d [''/node/vm'', n] = Inr d' else d' = d)"
proof (induction ss arbitrary: ss')
  case Nil
  then show ?case by simp
next
  case (Cons s ss)
  show ?case
  proof (cases "is_VM (klass s) \<and> name s = n")
    case True
    with Cons.prems show ?thesis
      by (cases "klass s") (auto simp: exn_bind_eq_Inr del_metrics_def)
  next
    case False
    with Cons.prems obtain ss0 where "remove_vm_loop n ss d = Inr (ss0, d')"
      by (auto simp: exn_bind_eq_Inr)
    from Cons.IH [OF this] False show ?thesis by auto
  qed
qed

lemma remove_kbnet_loop_store:
  "remove_kbnet_loop n ss d = Inr (ss', d') \<Longrightarrow>
     (if n \<in> set (map name (filter (\<lambda>s. is_KBNet (klass s)) ss))
      then del_path d [''/node/kb'', n] = Inr d' else d' = d)"
proof (induction ss arbitrary: ss')
  case Nil
  then show ?case by simp
next
  case (Cons s ss)
  show ?case
  proof (cases "is_KBNet (klass s) \<and> name s = n")
    case True
    with Cons.prems show ?thesis
      by (cases "klass s") (auto simp: exn_bind_eq_Inr del_metrics_def)
  next
    case False
    with Cons.prems obtain ss0 where "remove_kbnet_loop n ss d = Inr (ss0, d')"
      by (auto simp: exn_bind_eq_Inr)
    from Cons.IH [OF this] False show ?thesis by auto
  qed
qed

text \<open>
  C5. When the root has a VM named \<open>n\<close> and \<open>remove_vm n\<close> returns, the store after the
  call is the store before it with the key \<open>n\<close> deleted from the dict at \<open>/node/vm\<close>:
  the scope of \<open>n\<close> is gone, the scope of every other VM and every other entry of the
  store are as before. The same holds for \<open>remove_kbnet\<close> and the dict at \<open>/node/kb\<close>.
\<close>

theorem remove_deletes_scope:
  "(remove_vm n e = Inr e' \<and> n \<in> set (vm_names (root e)) \<longrightarrow>
      (\<exists>m. map_of (data e) ''/node/vm'' = Some (Dict m) \<and> n \<in> set (keys m)
          \<and> data e' = AList.update ''/node/vm'' (Dict (AList.delete n m)) (data e)
          \<and> get_path (data e') [''/node/vm'', n] = Inl (KeyError n)
          \<and> (\<forall>n'. n' \<noteq> n \<longrightarrow>
                get_path (data e') [''/node/vm'', n'] = get_path (data e) [''/node/vm'', n'])
          \<and> (\<forall>k. k \<noteq> ''/node/vm'' \<longrightarrow> map_of (data e') k = map_of (data e) k)))
   \<and> (remove_kbnet n e = Inr e' \<and> n \<in> set (kb_names (root e)) \<longrightarrow>
      (\<exists>m. map_of (data e) ''/node/kb'' = Some (Dict m) \<and> n \<in> set (keys m)
          \<and> data e' = AList.update ''/node/kb'' (Dict (AList.delete n m)) (data e)
          \<and> get_path (data e') [''/node/kb'', n] = Inl (KeyError n)
          \<and> (\<forall>n'. n' \<noteq> n \<longrightarrow>
                get_path (data e') [''/node/kb'', n'] = get_path (data e) [''/node/kb'', n'])
          \<and> (\<forall>k. k \<noteq> ''/node/kb'' \<longrightarrow> map_of (data e') k = map_of (data e) k)))"
proof (intro conjI impI)
  assume a: "remove_vm n e = Inr e' \<and> n \<in> set (vm_names (root e))"
  then obtain deps d where l: "remove_vm_loop n (dependencies (root e)) (data e) = Inr (deps, d)"
    and d: "data e' = d"
    by (auto simp: remove_vm_def Node_remove_vm_def exn_bind_eq_Inr
                   update_graph_changed_timestamp_def)
  from remove_vm_loop_store [OF l] a have "del_path (data e) [''/node/vm'', n] = Inr d"
    by (simp add: vm_names_def)
  from del_path2_effect [OF this] d
  show "\<exists>m. map_of (data e) ''/node/vm'' = Some (Dict m) \<and> n \<in> set (keys m)
          \<and> data e' = AList.update ''/node/vm'' (Dict (AList.delete n m)) (data e)
          \<and> get_path (data e') [''/node/vm'', n] = Inl (KeyError n)
          \<and> (\<forall>n'. n' \<noteq> n \<longrightarrow>
                get_path (data e') [''/node/vm'', n'] = get_path (data e) [''/node/vm'', n'])
          \<and> (\<forall>k. k \<noteq> ''/node/vm'' \<longrightarrow> map_of (data e') k = map_of (data e) k)"
    by simp
next
  assume a: "remove_kbnet n e = Inr e' \<and> n \<in> set (kb_names (root e))"
  then obtain deps d where l: "remove_kbnet_loop n (dependencies (root e)) (data e) = Inr (deps, d)"
    and d: "data e' = d"
    by (auto simp: remove_kbnet_def Node_remove_kbnet_def exn_bind_eq_Inr
                   update_graph_changed_timestamp_def)
  from remove_kbnet_loop_store [OF l] a have "del_path (data e) [''/node/kb'', n] = Inr d"
    by (simp add: kb_names_def)
  from del_path2_effect [OF this] d
  show "\<exists>m. map_of (data e) ''/node/kb'' = Some (Dict m) \<and> n \<in> set (keys m)
          \<and> data e' = AList.update ''/node/kb'' (Dict (AList.delete n m)) (data e)
          \<and> get_path (data e') [''/node/kb'', n] = Inl (KeyError n)
          \<and> (\<forall>n'. n' \<noteq> n \<longrightarrow>
                get_path (data e') [''/node/kb'', n'] = get_path (data e) [''/node/kb'', n'])
          \<and> (\<forall>k. k \<noteq> ''/node/kb'' \<longrightarrow> map_of (data e') k = map_of (data e) k)"
    by simp
qed

lemma ex_remove_vm1: "\<exists>e'. remove_vm ''vm1'' ex_engine = Inr e'"
  by (simp add: remove_vm_def Node_remove_vm_def ex_engine_def ex_bm_def ex_vm_def ex_kb_def
        del_metrics_def ex_store_def get_dict_def del_key_def keys_def)

lemma ex_remove_kb0: "\<exists>e'. remove_kbnet ''kb0'' ex_engine = Inr e'"
  by (simp add: remove_kbnet_def Node_remove_kbnet_def ex_engine_def ex_bm_def ex_vm_def
        ex_kb_def del_metrics_def ex_store_def get_dict_def del_key_def keys_def)

theorem remove_deletes_scope_witness:
  "(\<exists>e'. remove_vm ''vm1'' ex_engine = Inr e'
        \<and> ''vm1'' \<in> set (vm_names (root ex_engine))
        \<and> get_path (data ex_engine) [''/node/vm'', ''vm1''] \<noteq> Inl (KeyError ''vm1'')
        \<and> get_path (data e') [''/node/vm'', ''vm1''] = Inl (KeyError ''vm1'')
        \<and> get_path (data e') [''/node/vm'', ''vm3''] = Inr (Dict [])
        \<and> map_of (data e') ''/node/kb'' = Some (Dict [(''kb0'', Dict [])]))
   \<and> (\<exists>e'. remove_kbnet ''kb0'' ex_engine = Inr e'
        \<and> ''kb0'' \<in> set (kb_names (root ex_engine))
        \<and> get_path (data e') [''/node/kb'', ''kb0''] = Inl (KeyError ''kb0'')
        \<and> map_of (data e') ''/node/vm'' = map_of (data ex_engine) ''/node/vm'')"
proof -
  have v: "''vm1'' \<in> set (vm_names (root ex_engine))"
    and k: "''kb0'' \<in> set (kb_names (root ex_engine))"
    by (simp_all add: vm_names_def kb_names_def ex_engine_def ex_bm_def ex_vm_def ex_kb_def)
  have g: "get_path (data ex_engine) [''/node/vm'', ''vm1''] \<noteq> Inl (KeyError ''vm1'')"
    "get_path (data ex_engine) [''/node/vm'', ''vm3''] = Inr (Dict [])"
    "map_of (data ex_engine) ''/node/kb'' = Some (Dict [(''kb0'', Dict [])])"
    by (simp_all add: ex_engine_def ex_store_def get_dict_def)
  from ex_remove_vm1 obtain e1 where e1: "remove_vm ''vm1'' ex_engine = Inr e1" by blast
  from ex_remove_kb0 obtain e2 where e2: "remove_kbnet ''kb0'' ex_engine = Inr e2" by blast
  have c1: "get_path (data e1) [''/node/vm'', ''vm1''] = Inl (KeyError ''vm1'')
        \<and> get_path (data e1) [''/node/vm'', ''vm3''] = Inr (Dict [])
        \<and> map_of (data e1) ''/node/kb'' = Some (Dict [(''kb0'', Dict [])])"
    using remove_deletes_scope [of "''vm1''" ex_engine e1] e1 v g by auto
  have c2: "get_path (data e2) [''/node/kb'', ''kb0''] = Inl (KeyError ''kb0'')
        \<and> map_of (data e2) ''/node/vm'' = map_of (data ex_engine) ''/node/vm''"
    using remove_deletes_scope [of "''kb0''" ex_engine e2] e2 k by auto
  show ?thesis
    using e1 e2 v k g c1 c2 by blast
qed


lemma bm_other: "bm_children r = filter (\<lambda>s. klass s = Baremetal) (other_children r)"
  by (auto simp: bm_children_def other_children_def intro!: filter_cong)

lemma Subservice_init_fields [simp]:
  "klass (Subservice_init e k t n parent imp) = k"
  "name (Subservice_init e k t n parent imp) = n"
  "dependencies (Subservice_init e k t n parent imp) = []"
  by (simp_all add: Subservice_init_def Let_def)

lemma VM_init_fields:
  "VM_init e n hyp parent = Inr (vm, d) \<Longrightarrow> klass vm = VM hyp \<and> name vm = n"
  by (auto simp: VM_init_def Let_def exn_bind_eq_Inr)

lemma KBNet_init_fields:
  "KBNet_init e n fw parent = Inr (kb, d) \<Longrightarrow> klass kb = KBNet fw \<and> name kb = n"
  by (auto simp: KBNet_init_def Let_def exn_bind_eq_Inr)

lemma Baremetal_init_fields:
  "Baremetal_init e n parent = Inr (bm, d) \<Longrightarrow> klass bm = Baremetal"
  by (auto simp: Baremetal_init_def Let_def exn_bind_eq_Inr)

lemma add_vm_deps:
  "add_vm n hyp e = Inr e' \<Longrightarrow>
     \<exists>vm. klass vm = VM hyp \<and> name vm = n \<and> dependencies (root e') = dependencies (root e) @ [vm]"
  by (auto simp: add_vm_def Node_add_vm_def exn_bind_eq_Inr update_graph_changed_timestamp_def
           dest: VM_init_fields)

lemma add_kbnet_deps:
  "add_kbnet n fw e = Inr e' \<Longrightarrow>
     \<exists>kb. klass kb = KBNet fw \<and> name kb = n \<and> dependencies (root e') = dependencies (root e) @ [kb]"
  by (auto simp: add_kbnet_def Node_add_kbnet_def exn_bind_eq_Inr update_graph_changed_timestamp_def
           dest: KBNet_init_fields)

lemma remove_vm_deps:
  "remove_vm n e = Inr e' \<Longrightarrow>
     \<exists>d'. remove_vm_loop n (dependencies (root e)) (data e) = Inr (dependencies (root e'), d')"
  by (auto simp: remove_vm_def Node_remove_vm_def exn_bind_eq_Inr update_graph_changed_timestamp_def)

lemma remove_kbnet_deps:
  "remove_kbnet n e = Inr e' \<Longrightarrow>
     \<exists>d'. remove_kbnet_loop n (dependencies (root e)) (data e) = Inr (dependencies (root e'), d')"
  by (auto simp: remove_kbnet_def Node_remove_kbnet_def exn_bind_eq_Inr update_graph_changed_timestamp_def)

text \<open>What each operation does to the names of the VMs, of the KBNets and to the rest.\<close>

lemma add_vm_names:
  "add_vm n hyp e = Inr e' \<Longrightarrow>
     vm_names (root e') = vm_names (root e) @ [n] \<and> kb_names (root e') = kb_names (root e)
     \<and> other_children (root e') = other_children (root e)"
  by (auto simp: vm_names_def kb_names_def other_children_def dest!: add_vm_deps)

lemma add_kbnet_names:
  "add_kbnet n fw e = Inr e' \<Longrightarrow>
     kb_names (root e') = kb_names (root e) @ [n] \<and> vm_names (root e') = vm_names (root e)
     \<and> other_children (root e') = other_children (root e)"
  by (auto simp: vm_names_def kb_names_def other_children_def dest!: add_kbnet_deps)

lemma filter_from_not:
  assumes "filter (\<lambda>s. \<not> P s) xs = filter (\<lambda>s. \<not> P s) ys" and "\<And>s. Q s \<Longrightarrow> \<not> P s"
  shows "filter Q xs = filter Q ys"
proof -
  have "filter Q zs = filter Q (filter (\<lambda>s. \<not> P s) zs)" for zs
    using assms(2) by (auto intro!: filter_cong)
  then show ?thesis using assms(1) by metis
qed

lemma remove_vm_names:
  assumes "remove_vm n e = Inr e'"
  shows "vm_names (root e') = remove1 n (vm_names (root e)) \<and> kb_names (root e') = kb_names (root e)
     \<and> other_children (root e') = other_children (root e)"
proof -
  from remove_vm_deps [OF assms] obtain d' where
    l: "remove_vm_loop n (dependencies (root e)) (data e) = Inr (dependencies (root e'), d')" by blast
  note r = remove_vm_loop_names [OF l]
  have "filter (\<lambda>s. is_KBNet (klass s)) (dependencies (root e')) =
        filter (\<lambda>s. is_KBNet (klass s)) (dependencies (root e))"
    by (rule filter_from_not [OF conjunct2 [OF r]]) (auto simp: klass.disc_eq_case split: klass.splits)
  moreover have "filter (\<lambda>s. \<not> is_VM (klass s) \<and> \<not> is_KBNet (klass s)) (dependencies (root e')) =
        filter (\<lambda>s. \<not> is_VM (klass s) \<and> \<not> is_KBNet (klass s)) (dependencies (root e))"
    by (rule filter_from_not [OF conjunct2 [OF r]]) auto
  ultimately show ?thesis
    using r by (simp add: vm_names_def kb_names_def other_children_def)
qed

lemma remove_kbnet_names:
  assumes "remove_kbnet n e = Inr e'"
  shows "kb_names (root e') = remove1 n (kb_names (root e)) \<and> vm_names (root e') = vm_names (root e)
     \<and> other_children (root e') = other_children (root e)"
proof -
  from remove_kbnet_deps [OF assms] obtain d' where
    l: "remove_kbnet_loop n (dependencies (root e)) (data e) = Inr (dependencies (root e'), d')" by blast
  note r = remove_kbnet_loop_names [OF l]
  have "filter (\<lambda>s. is_VM (klass s)) (dependencies (root e')) =
        filter (\<lambda>s. is_VM (klass s)) (dependencies (root e))"
    by (rule filter_from_not [OF conjunct2 [OF r]]) (auto simp: klass.disc_eq_case split: klass.splits)
  moreover have "filter (\<lambda>s. \<not> is_VM (klass s) \<and> \<not> is_KBNet (klass s)) (dependencies (root e')) =
        filter (\<lambda>s. \<not> is_VM (klass s) \<and> \<not> is_KBNet (klass s)) (dependencies (root e))"
    by (rule filter_from_not [OF conjunct2 [OF r]]) auto
  ultimately show ?thesis
    using r by (simp add: vm_names_def kb_names_def other_children_def)
qed

text \<open>The loops of the reconciliation.\<close>

lemma for_each_remove_vm:
  "for_each remove_vm ns e = Inr e' \<Longrightarrow>
     vm_names (root e') = fold remove1 ns (vm_names (root e)) \<and> kb_names (root e') = kb_names (root e)
     \<and> other_children (root e') = other_children (root e)"
proof (induction ns arbitrary: e)
  case Nil
  then show ?case by simp
next
  case (Cons n ns)
  then obtain e1 where a: "remove_vm n e = Inr e1" and b: "for_each remove_vm ns e1 = Inr e'"
    by (auto simp: exn_bind_eq_Inr)
  from Cons.IH [OF b] remove_vm_names [OF a] show ?case by simp
qed

lemma for_each_remove_kbnet:
  "for_each remove_kbnet ns e = Inr e' \<Longrightarrow>
     kb_names (root e') = fold remove1 ns (kb_names (root e)) \<and> vm_names (root e') = vm_names (root e)
     \<and> other_children (root e') = other_children (root e)"
proof (induction ns arbitrary: e)
  case Nil
  then show ?case by simp
next
  case (Cons n ns)
  then obtain e1 where a: "remove_kbnet n e = Inr e1" and b: "for_each remove_kbnet ns e1 = Inr e'"
    by (auto simp: exn_bind_eq_Inr)
  from Cons.IH [OF b] remove_kbnet_names [OF a] show ?case by simp
qed

lemma for_each_add_vm:
  "for_each (\<lambda>vm. add_vm vm hyp) ns e = Inr e' \<Longrightarrow>
     vm_names (root e') = vm_names (root e) @ ns \<and> kb_names (root e') = kb_names (root e)
     \<and> other_children (root e') = other_children (root e)"
proof (induction ns arbitrary: e)
  case Nil
  then show ?case by simp
next
  case (Cons n ns)
  then obtain e1 where a: "add_vm n hyp e = Inr e1"
    and b: "for_each (\<lambda>vm. add_vm vm hyp) ns e1 = Inr e'"
    by (auto simp: exn_bind_eq_Inr)
  from Cons.IH [OF b] add_vm_names [OF a] show ?case by simp
qed

lemma for_each_add_kbnet:
  "for_each (\<lambda>kb. add_kbnet kb fw) ns e = Inr e' \<Longrightarrow>
     kb_names (root e') = kb_names (root e) @ ns \<and> vm_names (root e') = vm_names (root e)
     \<and> other_children (root e') = other_children (root e)"
proof (induction ns arbitrary: e)
  case Nil
  then show ?case by simp
next
  case (Cons n ns)
  then obtain e1 where a: "add_kbnet n fw e = Inr e1"
    and b: "for_each (\<lambda>kb. add_kbnet kb fw) ns e1 = Inr e'"
    by (auto simp: exn_bind_eq_Inr)
  from Cons.IH [OF b] add_kbnet_names [OF a] show ?case by simp
qed

lemma fold_remove1_distinct:
  "distinct xs \<Longrightarrow> set (fold remove1 ns xs) = set xs - set ns \<and> distinct (fold remove1 ns xs)"
  by (induction ns arbitrary: xs) auto

lemma set_set_minus [simp]: "set (set_minus xs ys) = set xs - set ys"
  by (auto simp: set_minus_def)

text \<open>The reconciliation, step by step.\<close>

lemma update_dependency_graph_names:
  assumes "update_dependency_graph e = Inr e'"
  shows "\<exists>m_vms m_kbs.
           map_of (data e) ''virtualbox/vms'' = Some (Dict m_vms)
         \<and> map_of (data e) ''vpp/gnmi'' = Some (Dict m_kbs)
         \<and> vm_names (root e') =
             fold remove1 (set_minus (vm_names (root e)) (keys m_vms)) (vm_names (root e))
               @ set_minus (keys m_vms) (vm_names (root e))
         \<and> kb_names (root e') =
             fold remove1 (set_minus (kb_names (root e)) (keys m_kbs)) (kb_names (root e))
               @ set_minus (keys m_kbs) (kb_names (root e))
         \<and> other_children (root e') = other_children (root e)"
proof -
  from assms obtain m_vms m_kbs e1 e2 e3 where
    g1: "get_dict (data e) ''virtualbox/vms'' = Inr m_vms" and
    g2: "get_dict (data e) ''vpp/gnmi'' = Inr m_kbs" and
    s1: "for_each remove_vm (set_minus (vm_names (root e)) (keys m_vms)) e = Inr e1" and
    s2: "for_each remove_kbnet (set_minus (kb_names (root e)) (keys m_kbs)) e1 = Inr e2" and
    s3: "for_each (\<lambda>vm. add_vm vm ''virtualbox'') (set_minus (keys m_vms) (vm_names (root e))) e2 = Inr e3" and
    s4: "for_each (\<lambda>kb. add_kbnet kb ''vpp'') (set_minus (keys m_kbs) (kb_names (root e))) e3 = Inr e'"
    by (auto simp: update_dependency_graph_def Let_def exn_bind_eq_Inr)
  from for_each_remove_vm [OF s1] for_each_remove_kbnet [OF s2] for_each_add_vm [OF s3]
    for_each_add_kbnet [OF s4] g1 g2
  show ?thesis
    by (simp add: get_dict_eq_Inr)
qed

lemma list_all_update:
  "list_all P (map snd al) \<Longrightarrow> P v \<Longrightarrow> list_all P (map snd (AList.update k v al))"
  by (induction al) auto

lemma init_rb_dict_no_samples: "list_all no_samples (map snd (init_rb_dict cap ns ts us))"
proof -
  have "list_all no_samples (map snd acc) \<Longrightarrow>
        list_all no_samples (map snd (fold (\<lambda>(n, t, u).
             AList.update n (Buf \<lparr>max_len = cap, rb_type = t, rb_unit = u,
                                  rb_counter = False, samples = []\<rparr>)) xs acc))" for xs acc
    by (induction xs arbitrary: acc) (auto simp: list_all_update)
  from this [of "[]" "zip ns (zip ts us)"] show ?thesis
    unfolding init_rb_dict_def by simp
qed

lemma init_metrics_rb_no_samples:
  "init_metrics_rb e k = Inr rb \<Longrightarrow> no_samples (Dict rb)"
  by (auto simp: init_metrics_rb_def init_rb_dict_no_samples split: option.splits)

lemma set_path_snoc:
  "set_path d (ks @ [k]) v = Inr d' \<Longrightarrow> get_path d ks = Inr (Dict m) \<Longrightarrow>
     get_path d' ks = Inr (Dict (AList.update k v m))"
  using set_path_last by fastforce

lemma set_path2_get:
  assumes "set_path d [a, n] v = Inr d'"
  shows "get_path d' [a, n] = Inr v"
proof -
  from assms obtain m where "map_of d a = Some (Dict m)"
    and "d' = AList.update a (Dict (AList.update n v m)) d"
    by (auto simp: exn_bind_eq_Inr get_dict_eq_Inr)
  then show ?thesis by (simp add: get_dict_def update_conv')
qed

lemma VM_init_scope:
  assumes "VM_init e n hyp parent = Inr (vm, d')"
  shows "\<exists>rb_vm rb_proc rb_net rb_mem.
           init_metrics_rb e ''vm'' = Inr rb_vm \<and> init_metrics_rb e ''proc'' = Inr rb_proc
         \<and> init_metrics_rb e ''net'' = Inr rb_net \<and> init_metrics_rb e ''mem'' = Inr rb_mem
         \<and> get_path d' [''/node/vm'', n] =
             Inr (Dict [(''/node/vm'', Dict rb_vm), (''/node/vm/net/if'', Dict []),
                        (''/node/vm/proc'', Dict rb_proc), (''/node/vm/net'', Dict rb_net),
                        (''/node/vm/mem'', Dict rb_mem)])"
proof -
  from assms obtain d1 rb_vm d2 d3 rb_proc d4 rb_net d5 rb_mem where
    s1: "set_path (data e) [''/node/vm'', n] (Dict []) = Inr d1" and
    r1: "init_metrics_rb e ''vm'' = Inr rb_vm" and
    s2: "set_path d1 ([''/node/vm'', n] @ [''/node/vm'']) (Dict rb_vm) = Inr d2" and
    s3: "set_path d2 ([''/node/vm'', n] @ [''/node/vm/net/if'']) (Dict []) = Inr d3" and
    r2: "init_metrics_rb e ''proc'' = Inr rb_proc" and
    s4: "set_path d3 ([''/node/vm'', n] @ [''/node/vm/proc'']) (Dict rb_proc) = Inr d4" and
    r3: "init_metrics_rb e ''net'' = Inr rb_net" and
    s5: "set_path d4 ([''/node/vm'', n] @ [''/node/vm/net'']) (Dict rb_net) = Inr d5" and
    r4: "init_metrics_rb e ''mem'' = Inr rb_mem" and
    s6: "set_path d5 ([''/node/vm'', n] @ [''/node/vm/mem'']) (Dict rb_mem) = Inr d'"
    unfolding VM_init_def Let_def exn_bind_eq_Inr append.simps by blast
  note g1 = set_path2_get [OF s1]
  note g2 = set_path_snoc [OF s2 g1]
  note g3 = set_path_snoc [OF s3 g2]
  note g4 = set_path_snoc [OF s4 g3]
  note g5 = set_path_snoc [OF s5 g4]
  note g6 = set_path_snoc [OF s6 g5]
  from g6 r1 r2 r3 r4 show ?thesis by simp
qed

lemma KBNet_init_scope:
  assumes "KBNet_init e n fw parent = Inr (kb, d')"
  shows "\<exists>rb_kb rb_mem rb_proc.
           init_metrics_rb e ''kb'' = Inr rb_kb \<and> init_metrics_rb e ''mem'' = Inr rb_mem
         \<and> init_metrics_rb e ''proc'' = Inr rb_proc
         \<and> get_path d' [''/node/kb'', n] =
             Inr (Dict [(''/node/kb'', Dict rb_kb), (''/node/kb/net/if'', Dict []),
                        (''/node/kb/mem'', Dict rb_mem), (''/node/kb/proc'', Dict rb_proc)])"
proof -
  from assms obtain d1 rb_kb d2 d3 rb_mem d4 rb_proc where
    s1: "set_path (data e) [''/node/kb'', n] (Dict []) = Inr d1" and
    r1: "init_metrics_rb e ''kb'' = Inr rb_kb" and
    s2: "set_path d1 ([''/node/kb'', n] @ [''/node/kb'']) (Dict rb_kb) = Inr d2" and
    s3: "set_path d2 ([''/node/kb'', n] @ [''/node/kb/net/if'']) (Dict []) = Inr d3" and
    r2: "init_metrics_rb e ''mem'' = Inr rb_mem" and
    s4: "set_path d3 ([''/node/kb'', n] @ [''/node/kb/mem'']) (Dict rb_mem) = Inr d4" and
    r3: "init_metrics_rb e ''proc'' = Inr rb_proc" and
    s5: "set_path d4 ([''/node/kb'', n] @ [''/node/kb/proc'']) (Dict rb_proc) = Inr d'"
    unfolding KBNet_init_def Let_def exn_bind_eq_Inr append.simps by blast
  note g1 = set_path2_get [OF s1]
  note g2 = set_path_snoc [OF s2 g1]
  note g3 = set_path_snoc [OF s3 g2]
  note g4 = set_path_snoc [OF s4 g3]
  note g5 = set_path_snoc [OF s5 g4]
  from g5 r1 r2 r3 show ?thesis by simp
qed

text \<open>
  C10. When \<open>VM.__init__\<close> returns, the scope of the store at \<open>/node/vm\<close> under the
  VM's name is the dict of the five groups that the registry gives for \<open>vm\<close>, \<open>proc\<close>,
  \<open>net\<close> and \<open>mem\<close> and the empty dict of interfaces, whatever the store held under
  that name before, and no ring buffer in it holds a sample. The same holds for
  \<open>KBNet.__init__\<close> and the scope at \<open>/node/kb\<close>, with the groups for \<open>kb\<close>, \<open>mem\<close> and
  \<open>proc\<close>.
\<close>

theorem init_overwrites_scope:
  "(VM_init e n hyp parent = Inr (vm, d') \<longrightarrow>
      (\<exists>rb_vm rb_proc rb_net rb_mem.
           init_metrics_rb e ''vm'' = Inr rb_vm \<and> init_metrics_rb e ''proc'' = Inr rb_proc
         \<and> init_metrics_rb e ''net'' = Inr rb_net \<and> init_metrics_rb e ''mem'' = Inr rb_mem
         \<and> get_path d' [''/node/vm'', n] =
             Inr (Dict [(''/node/vm'', Dict rb_vm), (''/node/vm/net/if'', Dict []),
                        (''/node/vm/proc'', Dict rb_proc), (''/node/vm/net'', Dict rb_net),
                        (''/node/vm/mem'', Dict rb_mem)])
         \<and> no_samples (Dict [(''/node/vm'', Dict rb_vm), (''/node/vm/net/if'', Dict []),
                        (''/node/vm/proc'', Dict rb_proc), (''/node/vm/net'', Dict rb_net),
                        (''/node/vm/mem'', Dict rb_mem)])))
   \<and> (KBNet_init e n fw parent = Inr (kb, d'') \<longrightarrow>
      (\<exists>rb_kb rb_mem rb_proc.
           init_metrics_rb e ''kb'' = Inr rb_kb \<and> init_metrics_rb e ''mem'' = Inr rb_mem
         \<and> init_metrics_rb e ''proc'' = Inr rb_proc
         \<and> get_path d'' [''/node/kb'', n] =
             Inr (Dict [(''/node/kb'', Dict rb_kb), (''/node/kb/net/if'', Dict []),
                        (''/node/kb/mem'', Dict rb_mem), (''/node/kb/proc'', Dict rb_proc)])
         \<and> no_samples (Dict [(''/node/kb'', Dict rb_kb), (''/node/kb/net/if'', Dict []),
                        (''/node/kb/mem'', Dict rb_mem), (''/node/kb/proc'', Dict rb_proc)])))"
proof (intro conjI impI)
  assume "VM_init e n hyp parent = Inr (vm, d')"
  from VM_init_scope [OF this] obtain rb_vm rb_proc rb_net rb_mem where
    r: "init_metrics_rb e ''vm'' = Inr rb_vm" "init_metrics_rb e ''proc'' = Inr rb_proc"
       "init_metrics_rb e ''net'' = Inr rb_net" "init_metrics_rb e ''mem'' = Inr rb_mem"
    and g: "get_path d' [''/node/vm'', n] =
             Inr (Dict [(''/node/vm'', Dict rb_vm), (''/node/vm/net/if'', Dict []),
                        (''/node/vm/proc'', Dict rb_proc), (''/node/vm/net'', Dict rb_net),
                        (''/node/vm/mem'', Dict rb_mem)])"
    by blast
  have "no_samples (Dict [(''/node/vm'', Dict rb_vm), (''/node/vm/net/if'', Dict []),
                        (''/node/vm/proc'', Dict rb_proc), (''/node/vm/net'', Dict rb_net),
                        (''/node/vm/mem'', Dict rb_mem)])"
    using r [THEN init_metrics_rb_no_samples] by simp
  with r g show "\<exists>rb_vm rb_proc rb_net rb_mem.
           init_metrics_rb e ''vm'' = Inr rb_vm \<and> init_metrics_rb e ''proc'' = Inr rb_proc
         \<and> init_metrics_rb e ''net'' = Inr rb_net \<and> init_metrics_rb e ''mem'' = Inr rb_mem
         \<and> get_path d' [''/node/vm'', n] =
             Inr (Dict [(''/node/vm'', Dict rb_vm), (''/node/vm/net/if'', Dict []),
                        (''/node/vm/proc'', Dict rb_proc), (''/node/vm/net'', Dict rb_net),
                        (''/node/vm/mem'', Dict rb_mem)])
         \<and> no_samples (Dict [(''/node/vm'', Dict rb_vm), (''/node/vm/net/if'', Dict []),
                        (''/node/vm/proc'', Dict rb_proc), (''/node/vm/net'', Dict rb_net),
                        (''/node/vm/mem'', Dict rb_mem)])"
    by blast
next
  assume "KBNet_init e n fw parent = Inr (kb, d'')"
  from KBNet_init_scope [OF this] obtain rb_kb rb_mem rb_proc where
    r: "init_metrics_rb e ''kb'' = Inr rb_kb" "init_metrics_rb e ''mem'' = Inr rb_mem"
       "init_metrics_rb e ''proc'' = Inr rb_proc"
    and g: "get_path d'' [''/node/kb'', n] =
             Inr (Dict [(''/node/kb'', Dict rb_kb), (''/node/kb/net/if'', Dict []),
                        (''/node/kb/mem'', Dict rb_mem), (''/node/kb/proc'', Dict rb_proc)])"
    by blast
  have "no_samples (Dict [(''/node/kb'', Dict rb_kb), (''/node/kb/net/if'', Dict []),
                        (''/node/kb/mem'', Dict rb_mem), (''/node/kb/proc'', Dict rb_proc)])"
    using r [THEN init_metrics_rb_no_samples] by simp
  with r g show "\<exists>rb_kb rb_mem rb_proc.
           init_metrics_rb e ''kb'' = Inr rb_kb \<and> init_metrics_rb e ''mem'' = Inr rb_mem
         \<and> init_metrics_rb e ''proc'' = Inr rb_proc
         \<and> get_path d'' [''/node/kb'', n] =
             Inr (Dict [(''/node/kb'', Dict rb_kb), (''/node/kb/net/if'', Dict []),
                        (''/node/kb/mem'', Dict rb_mem), (''/node/kb/proc'', Dict rb_proc)])
         \<and> no_samples (Dict [(''/node/kb'', Dict rb_kb), (''/node/kb/net/if'', Dict []),
                        (''/node/kb/mem'', Dict rb_mem), (''/node/kb/proc'', Dict rb_proc)])"
    by blast
qed

lemmas ex_defs = ex_engine_def ex_store_def ex_lookup_def ex_vm_def ex_kb_def ex_bm_def ex_cpu_def
  ex_symptom_def ex_rb_def ex_base_def

lemmas graph_defs = update_dependency_graph_def add_vm_def add_kbnet_def remove_vm_def
  remove_kbnet_def Node_add_vm_def Node_add_kbnet_def Node_remove_vm_def Node_remove_kbnet_def
  VM_init_def KBNet_init_def Subservice_init_def find_fullname_def find_path_def get_symptoms_def
  init_metrics_rb_def init_rb_dict_def del_metrics_def get_dict_def del_key_def keys_def
  vm_names_def kb_names_def set_minus_def update_graph_changed_timestamp_def

lemma ex_reconcile: "\<exists>e'. update_dependency_graph ex_engine = Inr e'"
  by (simp add: ex_defs graph_defs)

lemma ex_vm_init:
  "\<exists>vm d'. VM_init ex_engine ''vm1'' ''virtualbox'' (Some (root ex_engine)) = Inr (vm, d')"
  by (simp add: ex_defs graph_defs)

lemma ex_kb_init:
  "\<exists>kb d'. KBNet_init ex_engine ''kb0'' ''vpp'' (Some (root ex_engine)) = Inr (kb, d')"
  by (simp add: ex_defs graph_defs)

theorem init_overwrites_scope_witness:
  "\<not> no_samples (Dict [(''/node/vm'', Dict [(''active'', Buf (ex_rb TBool [PBool True]))])])
   \<and> get_path (data ex_engine) [''/node/vm'', ''vm1''] =
       Inr (Dict [(''/node/vm'', Dict [(''active'', Buf (ex_rb TBool [PBool True]))])])
   \<and> (\<exists>vm d' x. VM_init ex_engine ''vm1'' ''virtualbox'' (Some (root ex_engine)) = Inr (vm, d')
         \<and> get_path d' [''/node/vm'', ''vm1''] = Inr x \<and> no_samples x)
   \<and> (\<exists>kb d' x. KBNet_init ex_engine ''kb0'' ''vpp'' (Some (root ex_engine)) = Inr (kb, d')
         \<and> get_path d' [''/node/kb'', ''kb0''] = Inr x \<and> no_samples x)"
proof -
  have a: "\<not> no_samples (Dict [(''/node/vm'', Dict [(''active'', Buf (ex_rb TBool [PBool True]))])])"
    by (simp add: ex_rb_def)
  have b: "get_path (data ex_engine) [''/node/vm'', ''vm1''] =
       Inr (Dict [(''/node/vm'', Dict [(''active'', Buf (ex_rb TBool [PBool True]))])])"
    by (simp add: ex_engine_def ex_store_def get_dict_def)
  from ex_vm_init obtain vm d1 where
    v: "VM_init ex_engine ''vm1'' ''virtualbox'' (Some (root ex_engine)) = Inr (vm, d1)" by blast
  from ex_kb_init obtain kb d2 where
    k: "KBNet_init ex_engine ''kb0'' ''vpp'' (Some (root ex_engine)) = Inr (kb, d2)" by blast
  from init_overwrites_scope [where e = ex_engine and n = "''vm1''" and hyp = "''virtualbox''"
         and parent = "Some (root ex_engine)" and vm = vm and d' = d1] v
  have c: "\<exists>x. get_path d1 [''/node/vm'', ''vm1''] = Inr x \<and> no_samples x" by blast
  from init_overwrites_scope [where e = ex_engine and n = "''kb0''" and fw = "''vpp''"
         and parent = "Some (root ex_engine)" and kb = kb and d'' = d2] k
  have e: "\<exists>x. get_path d2 [''/node/kb'', ''kb0''] = Inr x \<and> no_samples x" by blast
  from a b v k c e show ?thesis by blast
qed

lemma for_each_invariant:
  "for_each body xs s = Inr s' \<Longrightarrow> (\<And>x s s'. body x s = Inr s' \<Longrightarrow> f s' = f s) \<Longrightarrow> f s' = f s"
proof (induction xs arbitrary: s)
  case Nil
  then show ?case by simp
next
  case (Cons x xs)
  then obtain s1 where a: "body x s = Inr s1" and b: "for_each body xs s1 = Inr s'"
    by (auto simp: exn_bind_eq_Inr)
  from Cons.IH [OF b Cons.prems(2)] Cons.prems(2) [OF a] show ?case by simp
qed

lemma VM_init_frame:
  assumes "VM_init e n hyp parent = Inr (vm, d')" and "k \<noteq> ''/node/vm''"
  shows "map_of d' k = map_of (data e) k"
proof -
  from assms(1) obtain d1 rb_vm d2 d3 rb_proc d4 rb_net d5 rb_mem where
    s1: "set_path (data e) [''/node/vm'', n] (Dict []) = Inr d1" and
    s2: "set_path d1 [''/node/vm'', n, ''/node/vm''] (Dict rb_vm) = Inr d2" and
    s3: "set_path d2 [''/node/vm'', n, ''/node/vm/net/if''] (Dict []) = Inr d3" and
    s4: "set_path d3 [''/node/vm'', n, ''/node/vm/proc''] (Dict rb_proc) = Inr d4" and
    s5: "set_path d4 [''/node/vm'', n, ''/node/vm/net''] (Dict rb_net) = Inr d5" and
    s6: "set_path d5 [''/node/vm'', n, ''/node/vm/mem''] (Dict rb_mem) = Inr d'"
    unfolding VM_init_def Let_def exn_bind_eq_Inr by blast
  show ?thesis
    using set_path_frame [OF s1 assms(2)] set_path_frame [OF s2 assms(2)]
      set_path_frame [OF s3 assms(2)] set_path_frame [OF s4 assms(2)]
      set_path_frame [OF s5 assms(2)] set_path_frame [OF s6 assms(2)]
    by simp
qed

lemma KBNet_init_frame:
  assumes "KBNet_init e n fw parent = Inr (kb, d')" and "k \<noteq> ''/node/kb''"
  shows "map_of d' k = map_of (data e) k"
proof -
  from assms(1) obtain d1 rb_kb d2 d3 rb_mem d4 rb_proc where
    s1: "set_path (data e) [''/node/kb'', n] (Dict []) = Inr d1" and
    s2: "set_path d1 [''/node/kb'', n, ''/node/kb''] (Dict rb_kb) = Inr d2" and
    s3: "set_path d2 [''/node/kb'', n, ''/node/kb/net/if''] (Dict []) = Inr d3" and
    s4: "set_path d3 [''/node/kb'', n, ''/node/kb/mem''] (Dict rb_mem) = Inr d4" and
    s5: "set_path d4 [''/node/kb'', n, ''/node/kb/proc''] (Dict rb_proc) = Inr d'"
    unfolding KBNet_init_def Let_def exn_bind_eq_Inr by blast
  show ?thesis
    using set_path_frame [OF s1 assms(2)] set_path_frame [OF s2 assms(2)]
      set_path_frame [OF s3 assms(2)] set_path_frame [OF s4 assms(2)]
      set_path_frame [OF s5 assms(2)]
    by simp
qed

lemma add_vm_frame:
  "add_vm n hyp e = Inr e' \<Longrightarrow> k \<noteq> ''/node/vm'' \<Longrightarrow> map_of (data e') k = map_of (data e) k"
  by (auto simp: add_vm_def Node_add_vm_def exn_bind_eq_Inr update_graph_changed_timestamp_def
           dest: VM_init_frame)

lemma add_kbnet_frame:
  "add_kbnet n fw e = Inr e' \<Longrightarrow> k \<noteq> ''/node/kb'' \<Longrightarrow> map_of (data e') k = map_of (data e) k"
  by (auto simp: add_kbnet_def Node_add_kbnet_def exn_bind_eq_Inr update_graph_changed_timestamp_def
           dest: KBNet_init_frame)

lemma remove_vm_frame:
  assumes "remove_vm n e = Inr e'" and "k \<noteq> ''/node/vm''"
  shows "map_of (data e') k = map_of (data e) k"
proof -
  from assms(1) obtain deps where "remove_vm_loop n (dependencies (root e)) (data e) = Inr (deps, data e')"
    by (auto simp: remove_vm_def Node_remove_vm_def exn_bind_eq_Inr update_graph_changed_timestamp_def)
  from remove_vm_loop_store [OF this]
  have "del_path (data e) [''/node/vm'', n] = Inr (data e') \<or> data e' = data e"
    unfolding if_bool_eq_conj by blast
  then show ?thesis
  proof
    assume "del_path (data e) [''/node/vm'', n] = Inr (data e')"
    then show ?thesis by (rule del_path_frame [OF _ assms(2)])
  next
    assume "data e' = data e"
    then show ?thesis by simp
  qed
qed

lemma remove_kbnet_frame:
  assumes "remove_kbnet n e = Inr e'" and "k \<noteq> ''/node/kb''"
  shows "map_of (data e') k = map_of (data e) k"
proof -
  from assms(1) obtain deps where "remove_kbnet_loop n (dependencies (root e)) (data e) = Inr (deps, data e')"
    by (auto simp: remove_kbnet_def Node_remove_kbnet_def exn_bind_eq_Inr update_graph_changed_timestamp_def)
  from remove_kbnet_loop_store [OF this]
  have "del_path (data e) [''/node/kb'', n] = Inr (data e') \<or> data e' = data e"
    unfolding if_bool_eq_conj by blast
  then show ?thesis
  proof
    assume "del_path (data e) [''/node/kb'', n] = Inr (data e')"
    then show ?thesis by (rule del_path_frame [OF _ assms(2)])
  next
    assume "data e' = data e"
    then show ?thesis by simp
  qed
qed

lemma update_dependency_graph_frame:
  assumes "update_dependency_graph e = Inr e'" and "k \<noteq> ''/node/vm''" and "k \<noteq> ''/node/kb''"
  shows "map_of (data e') k = map_of (data e) k"
proof -
  from assms(1) obtain xs1 xs2 xs3 xs4 e1 e2 e3 where
    s1: "for_each remove_vm xs1 e = Inr e1" and
    s2: "for_each remove_kbnet xs2 e1 = Inr e2" and
    s3: "for_each (\<lambda>vm. add_vm vm ''virtualbox'') xs3 e2 = Inr e3" and
    s4: "for_each (\<lambda>kb. add_kbnet kb ''vpp'') xs4 e3 = Inr e'"
    unfolding update_dependency_graph_def Let_def exn_bind_eq_Inr by blast
  have "map_of (data e1) k = map_of (data e) k"
    by (rule for_each_invariant [OF s1]) (rule remove_vm_frame [OF _ assms(2)])
  moreover have "map_of (data e2) k = map_of (data e1) k"
    by (rule for_each_invariant [OF s2]) (rule remove_kbnet_frame [OF _ assms(3)])
  moreover have "map_of (data e3) k = map_of (data e2) k"
    by (rule for_each_invariant [OF s3]) (rule add_vm_frame [OF _ assms(2)])
  moreover have "map_of (data e') k = map_of (data e3) k"
    by (rule for_each_invariant [OF s4]) (rule add_kbnet_frame [OF _ assms(3)])
  ultimately show ?thesis by simp
qed

text \<open>
  C2. When the names of the root's VMs are pairwise distinct, and so are the names of its
  KBNets, and \<open>_update_dependency_graph\<close> returns, the store holds dicts at
  \<open>virtualbox/vms\<close> and \<open>vpp/gnmi\<close>, the call leaves them as they are, the set of the
  names of the root's VMs is the set of the keys of the first and the set of the names
  of the root's KBNets is the set of the keys of the second. The names are again
  pairwise distinct.
\<close>

theorem reconcile_children:
  assumes "distinct (vm_names (root e))" and "distinct (kb_names (root e))"
    and "update_dependency_graph e = Inr e'"
  shows "\<exists>m_vms m_kbs.
           map_of (data e) ''virtualbox/vms'' = Some (Dict m_vms)
         \<and> map_of (data e) ''vpp/gnmi'' = Some (Dict m_kbs)
         \<and> map_of (data e') ''virtualbox/vms'' = Some (Dict m_vms)
         \<and> map_of (data e') ''vpp/gnmi'' = Some (Dict m_kbs)
         \<and> set (vm_names (root e')) = set (keys m_vms)
         \<and> set (kb_names (root e')) = set (keys m_kbs)
         \<and> distinct (vm_names (root e')) \<and> distinct (kb_names (root e'))"
proof -
  from update_dependency_graph_names [OF assms(3)] obtain m_vms m_kbs where
    m: "map_of (data e) ''virtualbox/vms'' = Some (Dict m_vms)"
       "map_of (data e) ''vpp/gnmi'' = Some (Dict m_kbs)" and
    v: "vm_names (root e') =
             fold remove1 (set_minus (vm_names (root e)) (keys m_vms)) (vm_names (root e))
               @ set_minus (keys m_vms) (vm_names (root e))" and
    k: "kb_names (root e') =
             fold remove1 (set_minus (kb_names (root e)) (keys m_kbs)) (kb_names (root e))
               @ set_minus (keys m_kbs) (kb_names (root e))"
    by blast
  have d: "distinct (set_minus xs ys)" for xs ys :: "string list"
    by (simp add: set_minus_def)
  have f: "map_of (data e') ''virtualbox/vms'' = map_of (data e) ''virtualbox/vms''"
    "map_of (data e') ''vpp/gnmi'' = map_of (data e) ''vpp/gnmi''"
    by (rule update_dependency_graph_frame [OF assms(3)]; simp)+
  have "set (vm_names (root e')) = set (keys m_vms) \<and> distinct (vm_names (root e'))"
    unfolding v using fold_remove1_distinct [OF assms(1)] d by auto
  moreover have "set (kb_names (root e')) = set (keys m_kbs) \<and> distinct (kb_names (root e'))"
    unfolding k using fold_remove1_distinct [OF assms(2)] d by auto
  ultimately show ?thesis using m f by simp
qed

theorem reconcile_children_witness:
  "distinct (vm_names (root ex_engine)) \<and> distinct (kb_names (root ex_engine))
   \<and> set (vm_names (root ex_engine)) = {''vm1'', ''vm3''}
   \<and> (\<exists>e'. update_dependency_graph ex_engine = Inr e'
          \<and> set (vm_names (root e')) = {''vm2''} \<and> set (kb_names (root e')) = {''kb1''})"
proof -
  have d: "distinct (vm_names (root ex_engine))" "distinct (kb_names (root ex_engine))"
    and v: "set (vm_names (root ex_engine)) = {''vm1'', ''vm3''}"
    by (auto simp: ex_defs vm_names_def kb_names_def)
  have m: "map_of (data ex_engine) ''virtualbox/vms'' =
             Some (Dict [(''vm2'', Dict [(''state'', Buf (ex_rb TStr [PStr ''Running'']))])])"
    "map_of (data ex_engine) ''vpp/gnmi'' =
             Some (Dict [(''kb1'', Dict [(''status'', Buf (ex_rb TStr [PStr ''synced'']))])])"
    by (simp_all add: ex_engine_def ex_store_def)
  from ex_reconcile obtain e' where e: "update_dependency_graph ex_engine = Inr e'" by blast
  from reconcile_children [OF d e] m
  have "set (vm_names (root e')) = {''vm2''} \<and> set (kb_names (root e')) = {''kb1''}"
    by (auto simp: keys_def)
  with d v e show ?thesis by blast
qed

lemma Node_init_deps:
  "Node_init b n parent = Inr (r, d) \<Longrightarrow> \<exists>bm. klass bm = Baremetal \<and> dependencies r = [bm]"
  by (auto simp: Node_init_def Let_def exn_bind_eq_Inr dest: Baremetal_init_fields)

lemma HealthEngine_init_deps:
  "HealthEngine_init safe_rule b rows = Inr (e, log) \<Longrightarrow>
     \<exists>bm. klass bm = Baremetal \<and> dependencies (root e) = [bm]"
  by (auto simp: HealthEngine_init_def Let_def exn_bind_eq_Inr update_graph_changed_timestamp_def
           dest: Node_init_deps)

lemma reachable_other_children:
  "reachable e \<Longrightarrow> \<exists>bm. klass bm = Baremetal \<and> other_children (root e) = [bm]"
proof (induction rule: reachable.induct)
  case (start safe_rule b rows e log)
  from HealthEngine_init_deps [OF start] show ?case
    by (auto simp: other_children_def)
next
  case (watchers e d)
  then show ?case by simp
next
  case (by_add_vm e n hyp e')
  with add_vm_names [OF by_add_vm(2)] show ?case by simp
next
  case (by_add_kbnet e n fw e')
  with add_kbnet_names [OF by_add_kbnet(2)] show ?case by simp
next
  case (by_remove_vm e n e')
  with remove_vm_names [OF by_remove_vm(2)] show ?case by simp
next
  case (by_remove_kbnet e n e')
  with remove_kbnet_names [OF by_remove_kbnet(2)] show ?case by simp
next
  case (by_reconcile e e')
  from update_dependency_graph_names [OF by_reconcile(2)]
  have "other_children (root e') = other_children (root e)" by blast
  with by_reconcile show ?case by simp
qed

text \<open>
  C9. The root of every engine that the agent can hold has exactly one dependency that
  is neither a VM nor a KBNet, and it is a \<open>Baremetal\<close>: the root has exactly one
  \<open>Baremetal\<close> dependency. The engine that \<open>HealthEngine.__init__\<close> builds has it, and
  \<open>add_vm\<close>, \<open>add_kbnet\<close>, \<open>remove_vm\<close>, \<open>remove_kbnet\<close> and
  \<open>_update_dependency_graph\<close> keep the list of these dependencies as it is, whatever
  the watchers put into the store in between.
\<close>

theorem one_baremetal_child:
  "reachable e \<Longrightarrow>
     (\<exists>bm. klass bm = Baremetal \<and> other_children (root e) = [bm])
     \<and> length (bm_children (root e)) = 1"
proof -
  assume "reachable e"
  from reachable_other_children [OF this] obtain bm where
    b: "klass bm = Baremetal" "other_children (root e) = [bm]" by blast
  then have "bm_children (root e) = [bm]"
    by (simp add: bm_other)
  with b show ?thesis by simp
qed

lemma ex_init: "HealthEngine_init (\<lambda>a ms. Inr True) ex_base [] = Inr (ex_engine0, [])"
  by code_simp

lemma ex_reconcile0:
  "\<exists>e1. update_dependency_graph ex_engine0 = Inr e1 \<and> length (dependencies (root e1)) = 3"
  by (simp add: ex_engine0_def ex_base_def ex_lookup_def ex_rb_def graph_defs)

theorem one_baremetal_child_witness:
  "reachable ex_engine0 \<and> length (bm_children (root ex_engine0)) = 1
   \<and> (\<exists>e1. update_dependency_graph ex_engine0 = Inr e1
          \<and> length (dependencies (root e1)) = 3 \<and> length (bm_children (root e1)) = 1)"
proof -
  from ex_reconcile0 obtain e1 where
    b: "update_dependency_graph ex_engine0 = Inr e1" and c: "length (dependencies (root e1)) = 3"
    by blast
  have r0: "reachable ex_engine0" by (rule reachable.start [OF ex_init])
  have r1: "reachable e1" by (rule reachable.by_reconcile [OF r0 b])
  from one_baremetal_child [OF r0] one_baremetal_child [OF r1] r0 b c
  show ?thesis by blast
qed

section \<open>Properties of the refresh and of the cycle\<close>

lemma set_active_fields [simp]:
  "active (set_active s b) = b"
  "dependencies (set_active s b) = dependencies s"
  "symptoms (set_active s b) = symptoms s"
  "klass (set_active s b) = klass s"
  by (cases s, simp)+

lemma update_symptoms_set_active:
  "update_symptoms check d (set_active s b) =
     (fst (update_symptoms check d s), set_active (snd (update_symptoms check d s)) b)"
  by (cases s) (simp add: update_symptoms_fields)

lemma update_symptoms_own_positives:
  "set (filter (\<lambda>x. check x d) (symptoms s)) \<subseteq> set (fst (fst (update_symptoms check d s)))"
  by (cases s) (auto simp: update_symptoms_fields)

lemma update_symptoms_child_positives:
  "c \<in> set (dependencies s) \<Longrightarrow>
     set (fst (fst (update_symptoms check d c))) \<subseteq> set (fst (fst (update_symptoms check d s)))"
  by (cases s) (auto simp: update_symptoms_fields)

lemma own_update_metrics_VM:
  assumes "klass s = VM hyp" and "own_update_metrics leaf sys parent s d = Inr (s', d')"
  shows "\<exists>rb v. get_buf d [hyp @ ''/vms'', name s, ''state''] = Inr rb \<and> top rb = Inr v
           \<and> s' = set_active s (py_eq_str v ''Running'')
           \<and> append_at d [''/node/vm'', name s, ''/node/vm'', ''active'']
                (PBool (py_eq_str v ''Running'')) = Inr d'"
  using assms by (auto simp: own_update_metrics_def exn_bind_eq_Inr Let_def)

lemma own_update_metrics_KBNet:
  assumes "klass s = KBNet fw" and "own_update_metrics leaf sys parent s d = Inr (s', d')"
  shows "\<exists>rb v. get_buf d [fw @ ''/gnmi'', name s, ''status''] = Inr rb \<and> top rb = Inr v
           \<and> s' = set_active s (py_eq_str v ''synced'')
           \<and> append_at d [''/node/kb'', name s, ''/node/kb'', ''active'']
                (PBool (py_eq_str v ''synced'')) = Inr d'"
  using assms by (auto simp: own_update_metrics_def exn_bind_eq_Inr Let_def)

lemma update_metrics_inactive:
  assumes "update_metrics leaf sys parent s d = Inr (s', d')" and "\<not> active s'"
  shows "own_update_metrics leaf sys parent s d = Inr (s', d')"
proof (cases s)
  case (Subservice k t n i a fn p hs sy ps deps)
  from assms(1) obtain s1 d1 where
    o: "own_update_metrics leaf sys parent s d = Inr (s1, d1)" and
    r: "(if \<not> active s1 then Inr (s1, d1)
         else exn_bind (update_metrics_deps leaf sys (Some s1) deps d1)
                (\<lambda>(deps', d''). Inr (set_dependencies s1 deps', d''))) = Inr (s', d')"
    unfolding Subservice by (auto simp: exn_bind_eq_Inr)
  have "active (set_dependencies s1 x) = active s1" for x by (cases s1) simp
  with r assms(2) have "s' = s1 \<and> d' = d1"
    by (auto simp: exn_bind_eq_Inr split: if_splits)
  with o show ?thesis by simp
qed

lemma own_update_metrics_dependencies:
  "own_update_metrics leaf sys parent s d = Inr (s', d') \<Longrightarrow> dependencies s' = dependencies s"
  by (auto simp: own_update_metrics_def exn_bind_eq_Inr Let_def split: klass.splits if_splits)

text \<open>
  C7. When the own refresh of a VM returns, its \<open>active\<close> flag says whether the most
  recent sample of the hypervisor's \<open>state\<close> of the VM is the string \<open>Running\<close>; for a
  KBNet, whether the most recent sample of the framework's \<open>status\<close> is \<open>synced\<close>. When
  \<open>update_metrics\<close> returns a subservice that is not active, it has done the own refresh
  of the subservice and nothing else: no dependency was refreshed. \<open>update_symptoms\<close>
  does not read the flag: it returns the same for the inactive subservice as for the
  active one, and every symptom of the subservice and of its dependencies that fires is
  in the list it returns.
\<close>

theorem active_flag_and_refresh:
  "(klass s = VM hyp \<and> own_update_metrics leaf sys parent s d = Inr (s', d') \<longrightarrow>
      (\<exists>rb v. get_buf d [hyp @ ''/vms'', name s, ''state''] = Inr rb \<and> top rb = Inr v
           \<and> active s' = py_eq_str v ''Running''))
   \<and> (klass s = KBNet fw \<and> own_update_metrics leaf sys parent s d = Inr (s', d') \<longrightarrow>
      (\<exists>rb v. get_buf d [fw @ ''/gnmi'', name s, ''status''] = Inr rb \<and> top rb = Inr v
           \<and> active s' = py_eq_str v ''synced''))
   \<and> (update_metrics leaf sys parent s d = Inr (s', d') \<and> \<not> active s' \<longrightarrow>
        own_update_metrics leaf sys parent s d = Inr (s', d')
        \<and> dependencies s' = dependencies s)
   \<and> update_symptoms check d (set_active s False) =
        (fst (update_symptoms check d (set_active s True)),
         set_active (snd (update_symptoms check d (set_active s True))) False)
   \<and> set (filter (\<lambda>x. check x d) (symptoms s))
        \<subseteq> set (fst (fst (update_symptoms check d (set_active s False))))
   \<and> (\<forall>c \<in> set (dependencies s).
        set (filter (\<lambda>x. check x d) (symptoms c))
          \<subseteq> set (fst (fst (update_symptoms check d (set_active s False)))))"
proof (intro conjI impI ballI)
  assume "klass s = VM hyp \<and> own_update_metrics leaf sys parent s d = Inr (s', d')"
  then show "\<exists>rb v. get_buf d [hyp @ ''/vms'', name s, ''state''] = Inr rb \<and> top rb = Inr v
           \<and> active s' = py_eq_str v ''Running''"
    using own_update_metrics_VM [of s hyp leaf sys parent d s' d'] by auto
next
  assume "klass s = KBNet fw \<and> own_update_metrics leaf sys parent s d = Inr (s', d')"
  then show "\<exists>rb v. get_buf d [fw @ ''/gnmi'', name s, ''status''] = Inr rb \<and> top rb = Inr v
           \<and> active s' = py_eq_str v ''synced''"
    using own_update_metrics_KBNet [of s fw leaf sys parent d s' d'] by auto
next
  assume a: "update_metrics leaf sys parent s d = Inr (s', d') \<and> \<not> active s'"
  then show o: "own_update_metrics leaf sys parent s d = Inr (s', d')"
    using update_metrics_inactive by blast
  from a show "dependencies s' = dependencies s"
    using update_metrics_inactive own_update_metrics_dependencies by blast
next
  show "update_symptoms check d (set_active s False) =
        (fst (update_symptoms check d (set_active s True)),
         set_active (snd (update_symptoms check d (set_active s True))) False)"
    by (cases s) (simp add: update_symptoms_fields)
next
  show "set (filter (\<lambda>x. check x d) (symptoms s))
        \<subseteq> set (fst (fst (update_symptoms check d (set_active s False))))"
    using update_symptoms_own_positives [of check d "set_active s False"] by simp
next
  fix c assume c: "c \<in> set (dependencies s)"
  then have "c \<in> set (dependencies (set_active s False))" by simp
  from update_symptoms_child_positives [OF this] update_symptoms_own_positives [of check d c]
  show "set (filter (\<lambda>x. check x d) (symptoms c))
          \<subseteq> set (fst (fst (update_symptoms check d (set_active s False))))"
    by blast
qed

lemmas refresh_defs = own_update_metrics_def get_buf_def append_at_def top_def rb_append_def
  get_dict_def funcs_keys_def

lemma ex_refresh_off:
  "\<exists>s' d'. update_metrics ex_leaf ''Linux'' None ex_vm_off (ex_off_store ''PoweredOff'') = Inr (s', d')
      \<and> \<not> active s' \<and> map_of d' ''refreshed'' = None"
  by (simp add: ex_vm_off_def ex_vm_cpu_def ex_off_store_def ex_leaf_def ex_rb_def refresh_defs)

lemma ex_refresh_on:
  "\<exists>s' d'. update_metrics ex_leaf ''Linux'' None ex_vm_off (ex_off_store ''Running'') = Inr (s', d')
      \<and> active s' \<and> map_of d' ''refreshed'' = Some (Dict [])"
  by (simp add: ex_vm_off_def ex_vm_cpu_def ex_off_store_def ex_leaf_def ex_rb_def refresh_defs)

theorem active_flag_and_refresh_witness:
  "(\<exists>s' d'. update_metrics ex_leaf ''Linux'' None ex_vm_off (ex_off_store ''PoweredOff'') = Inr (s', d')
      \<and> \<not> active s' \<and> map_of d' ''refreshed'' = None
      \<and> own_update_metrics ex_leaf ''Linux'' None ex_vm_off (ex_off_store ''PoweredOff'') = Inr (s', d')
      \<and> dependencies s' = [ex_vm_cpu]
      \<and> ex_down \<in> set (fst (fst (update_symptoms (\<lambda>s d. True) d' (set_active ex_vm_off False)))))
   \<and> (\<exists>s' d'. update_metrics ex_leaf ''Linux'' None ex_vm_off (ex_off_store ''Running'') = Inr (s', d')
      \<and> active s' \<and> map_of d' ''refreshed'' = Some (Dict []))"
proof -
  from ex_refresh_off obtain s' d' where
    u: "update_metrics ex_leaf ''Linux'' None ex_vm_off (ex_off_store ''PoweredOff'') = Inr (s', d')"
    and a: "\<not> active s'" and r: "map_of d' ''refreshed'' = None"
    by blast
  note t = active_flag_and_refresh [where s = ex_vm_off and s' = s' and d' = d' and leaf = ex_leaf
      and sys = "''Linux''" and parent = None and d = "ex_off_store ''PoweredOff''"]
  from t u a have o: "own_update_metrics ex_leaf ''Linux'' None ex_vm_off (ex_off_store ''PoweredOff'')
      = Inr (s', d')" and dp: "dependencies s' = dependencies ex_vm_off"
    by blast+
  have dv: "dependencies ex_vm_off = [ex_vm_cpu]" and sy: "symptoms ex_vm_off = [ex_down]"
    by (simp_all add: ex_vm_off_def)
  have "set (filter (\<lambda>x. (\<lambda>s d. True) x d') (symptoms ex_vm_off))
          \<subseteq> set (fst (fst (update_symptoms (\<lambda>s d. True) d' (set_active ex_vm_off False))))"
    using active_flag_and_refresh [where s = ex_vm_off and check = "\<lambda>s d. True" and d = d']
    by blast
  with sy have f: "ex_down \<in> set (fst (fst (update_symptoms (\<lambda>s d. True) d' (set_active ex_vm_off False))))"
    by simp
  from u a r o dp dv f ex_refresh_on show ?thesis by auto
qed

lemma update_health_steps:
  "update_health check leaf e = Inr e' \<longleftrightarrow>
     (\<exists>e1 r2 d2. update_dependency_graph e = Inr e1
        \<and> update_metrics leaf (system e1) None (root e1) (data e1) = Inr (r2, d2)
        \<and> e' = e1\<lparr>data := AList.update ''health_scores''
                                (Scores (snd (fst (update_symptoms check d2 r2))))
                                (AList.update ''symptoms''
                                   (Symptoms (fst (fst (update_symptoms check d2 r2)))) d2),
                     root := snd (update_symptoms check d2 r2)\<rparr>)"
  by (auto simp: update_health_def exn_bind_eq_Inr split_beta)

text \<open>
  C8. When \<open>process\<close> returns, the watchers' input has returned a store, the
  reconciliation has returned an engine from it, the refresh has run on the root and
  the store that the reconciliation left and has returned, the aggregation has run on
  the root and the store that the refresh left, and the engine holds its results; what
  the shared buffer was given, unless \<open>disable_shm\<close> is set, is the one store that
  holds these results, after everything it had before. When any of the steps raises,
  the shared buffer is as it was before the call.
\<close>

theorem cycle_order:
  "(fst (process input check leaf a) = Inr e' \<longrightarrow>
      (\<exists>d0 e1 r2 d2.
          input (data (engine a)) = Inr d0
        \<and> update_dependency_graph ((engine a)\<lparr>data := d0\<rparr>) = Inr e1
        \<and> update_metrics leaf (system e1) None (root e1) (data e1) = Inr (r2, d2)
        \<and> root e' = snd (update_symptoms check d2 r2)
        \<and> data e' = AList.update ''health_scores''
                        (Scores (snd (fst (update_symptoms check d2 r2))))
                        (AList.update ''symptoms''
                           (Symptoms (fst (fst (update_symptoms check d2 r2)))) d2)
        \<and> snd (process input check leaf a) =
              (if disable_shm a then sbuffer a
               else sbuffer a @ [(data e', if verbose a then [] else [''stats''])])))
   \<and> (fst (process input check leaf a) = Inl x \<longrightarrow> snd (process input check leaf a) = sbuffer a)"
proof (intro conjI impI)
  assume a: "fst (process input check leaf a) = Inr e'"
  then obtain d0 where i: "input (data (engine a)) = Inr d0"
    and h: "update_health check leaf ((engine a)\<lparr>data := d0\<rparr>) = Inr e'"
    by (auto simp: process_def exn_bind_eq_Inr split: sum.splits)
  from h obtain e1 r2 d2 where
    s: "update_dependency_graph ((engine a)\<lparr>data := d0\<rparr>) = Inr e1"
       "update_metrics leaf (system e1) None (root e1) (data e1) = Inr (r2, d2)"
       "e' = e1\<lparr>data := AList.update ''health_scores''
                                (Scores (snd (fst (update_symptoms check d2 r2))))
                                (AList.update ''symptoms''
                                   (Symptoms (fst (fst (update_symptoms check d2 r2)))) d2),
                     root := snd (update_symptoms check d2 r2)\<rparr>"
    unfolding update_health_steps by blast
  have p: "snd (process input check leaf a) =
              (if disable_shm a then sbuffer a
               else sbuffer a @ [(data e', if verbose a then [] else [''stats''])])"
    using i h by (simp add: process_def)
  from i s p show "\<exists>d0 e1 r2 d2.
          input (data (engine a)) = Inr d0
        \<and> update_dependency_graph ((engine a)\<lparr>data := d0\<rparr>) = Inr e1
        \<and> update_metrics leaf (system e1) None (root e1) (data e1) = Inr (r2, d2)
        \<and> root e' = snd (update_symptoms check d2 r2)
        \<and> data e' = AList.update ''health_scores''
                        (Scores (snd (fst (update_symptoms check d2 r2))))
                        (AList.update ''symptoms''
                           (Symptoms (fst (fst (update_symptoms check d2 r2)))) d2)
        \<and> snd (process input check leaf a) =
              (if disable_shm a then sbuffer a
               else sbuffer a @ [(data e', if verbose a then [] else [''stats''])])"
    by auto
next
  assume "fst (process input check leaf a) = Inl x"
  then show "snd (process input check leaf a) = sbuffer a"
    by (auto simp: process_def split: sum.splits)
qed

lemma ex_process_ok:
  "case fst (process Inr (\<lambda>s d. False) ex_leaf ex_agent) of Inr e \<Rightarrow> True | Inl x \<Rightarrow> False"
  by code_simp

lemma ex_process_fail:
  "fst (process Inr (\<lambda>s d. False) (\<lambda>p parent d. Inl (KeyError ''meminfo'')) ex_agent)
     = Inl (KeyError ''meminfo'')"
  by code_simp

theorem cycle_order_witness:
  "(\<exists>e'. fst (process Inr (\<lambda>s d. False) ex_leaf ex_agent) = Inr e'
      \<and> snd (process Inr (\<lambda>s d. False) ex_leaf ex_agent) = [(data e', [''stats''])]
      \<and> map_of (data e') ''symptoms'' = Some (Symptoms []))
   \<and> fst (process Inr (\<lambda>s d. False) (\<lambda>p parent d. Inl (KeyError ''meminfo'')) ex_agent)
        = Inl (KeyError ''meminfo'')
   \<and> snd (process Inr (\<lambda>s d. False) (\<lambda>p parent d. Inl (KeyError ''meminfo'')) ex_agent) = []"
proof -
  from ex_process_ok obtain e' where
    e: "fst (process Inr (\<lambda>s d. False) ex_leaf ex_agent) = Inr e'"
    by (auto split: sum.splits)
  have a: "\<not> disable_shm ex_agent" "\<not> verbose ex_agent" "sbuffer ex_agent = []"
    by (simp_all add: ex_agent_def)
  from cycle_order [where input = Inr and check = "\<lambda>s d. False" and leaf = ex_leaf
      and a = ex_agent and e' = e'] e
  obtain d0 e1 r2 d2 where
    d: "data e' = AList.update ''health_scores''
                        (Scores (snd (fst (update_symptoms (\<lambda>s d. False) d2 r2))))
                        (AList.update ''symptoms''
                           (Symptoms (fst (fst (update_symptoms (\<lambda>s d. False) d2 r2)))) d2)"
    and p: "snd (process Inr (\<lambda>s d. False) ex_leaf ex_agent) =
              (if disable_shm ex_agent then sbuffer ex_agent
               else sbuffer ex_agent @ [(data e', if verbose ex_agent then [] else [''stats''])])"
    by blast
  have n: "fst (fst (update_symptoms (\<lambda>s d. False) d2 r2)) = []"
  proof -
    have "fst (fst (update_symptoms (\<lambda>s d. False) dd n)) = []" for dd n
      by (induction n) (simp add: update_symptoms_fields)
    then show ?thesis .
  qed
  have s: "map_of (data e') ''symptoms'' = Some (Symptoms [])"
    by (simp add: d n update_conv')
  have f: "snd (process Inr (\<lambda>s d. False) (\<lambda>p parent d. Inl (KeyError ''meminfo'')) ex_agent) = []"
    using cycle_order [where input = Inr and check = "\<lambda>s d. False"
        and leaf = "\<lambda>p parent d. Inl (KeyError ''meminfo'')" and a = ex_agent
        and x = "KeyError ''meminfo''"] ex_process_fail a
    by simp
  from e p a s f ex_process_fail show ?thesis by simp
qed

section \<open>Properties of the rule loading\<close>

text \<open>
  What the loop of \<open>_read_rule_file\<close> does when every row has a severity field and the
  calls into the symptom module do not raise: it returns, and every row is either kept or
  answered with one line of the log.
\<close>

lemma parse_severity_cases:
  "parse_severity (Some s) = Inr GREEN \<or> parse_severity (Some s) = Inr ORANGE
   \<or> parse_severity (Some s) = Inr RED
   \<or> parse_severity (Some s) = Inl (KeyError (map upper_char s))"
  by (simp add: parse_severity_def Let_def)

lemma read_rule_loop_returns:
  assumes "\<forall>r \<in> set rows. row_severity r \<noteq> None"
    and "\<forall>x. \<exists>b. safe_rule x ms = Inr b"
  shows "\<exists>args' log'. read_rule_loop safe_rule ms rows (args, log) = Inr (args', log')
           \<and> length args' + length log' = length args + length log + length rows"
  using assms(1)
proof (induction rows arbitrary: args log)
  case Nil
  show ?case by simp
next
  case (Cons r rows)
  from Cons.prems obtain s where s: "row_severity r = Some s" by auto
  from Cons.prems have rest: "\<forall>r \<in> set rows. row_severity r \<noteq> None" by simp
  note ih = Cons.IH [OF rest]
  consider (key) "parse_severity (Some s) = Inl (KeyError (map upper_char s))"
    | (sev) sev where "parse_severity (Some s) = Inr sev"
    using parse_severity_cases [of s] by blast
  then show ?case
  proof cases
    case key
    with s ih [of args "log @ [''Invalid rule Severity: '' @ format_str (row_severity r)]"]
    show ?thesis by simp
  next
    case sev
    from assms(2) obtain b where b: "safe_rule (row_name r, row_path r, sev, row_rule r) ms = Inr b"
      by blast
    show ?thesis
    proof (cases b)
      case True
      with s sev b ih [of "args @ [(row_name r, row_path r, sev, row_rule r)]" log]
      show ?thesis by simp
    next
      case False
      with s sev b ih [of args "log @ [''Invalid rule: '' @ format_str (row_rule r)]"]
      show ?thesis by simp
    qed
  qed
qed

lemma ex_unknown_severity:
  "read_rule_file (\<lambda>x ms. Inr True) ex_base
     [\<lparr>row_name = Some ''r1'', row_path = Some ''/node/bm'', row_severity = Some ''purple'',
       row_rule = Some ''cpu_idle < 5''\<rparr>,
      \<lparr>row_name = Some ''r2'', row_path = Some ''/node/bm'', row_severity = Some ''Red'',
       row_rule = Some ''cpu_idle < 5''\<rparr>]
   = Inr ([(Some ''r2'', Some ''/node/bm'', RED, Some ''cpu_idle < 5'')],
          [''Invalid rule Severity: purple''])"
  by code_simp

text \<open>
  C6. Rule loading is meant to log and skip every row it rejects and never to raise.
  The code does not do so for a row that ends before its severity field: the field is
  \<open>None\<close>, \<open>str.upper\<close> raises \<open>TypeError\<close> on it, the \<open>except KeyError\<close> clause does
  not catch it, and the exception leaves \<open>_read_rule_file\<close> and
  \<open>HealthEngine.__init__\<close>, whatever the rows after it and the symptom module do.
\<close>

theorem short_row_raises:
  "read_rule_file safe_rule e (ex_short_row # rows) = Inl TypeError
   \<and> HealthEngine_init safe_rule b (ex_short_row # rows) = Inl TypeError"
  by (simp add: read_rule_file_def HealthEngine_init_def parse_severity_def ex_short_row_def
        Let_def)

end
